theory Spec2Isabelle
  imports Main "HOL-Library.AList" "HOL-Library.Char_ord" "HOL-Library.List_Lexorder"
begin

section \<open>JavaScript values as the driver sees them\<close>

text \<open>
  The node (\<^verbatim>\<open>NetSuite.execute\<close>) works on values of type \<^verbatim>\<open>any\<close>: request bodies parsed
  from JSON text and responses parsed by the HTTP helper (\<^verbatim>\<open>json: true\<close>). They are
  modelled by the datatype below. Strings are byte strings (the UTF-8 form of the
  JavaScript string, exact for ASCII) and an object is the list of its own properties in
  insertion order. \<open>JUndefined\<close> is the value of a missing property and of an empty
  response body. A number is an IEEE double: \<open>JNum n\<close> is the double whose value is the
  integer \<open>n\<close> (so \<open>n\<close> is a value of the program only when a double holds it exactly,
  see \<open>is_double\<close> below), \<open>JInfinity\<close> is plus or minus infinity (what \<^verbatim>\<open>JSON.parse\<close>
  and an overflowing sum give) and \<open>JNaN\<close> is NaN. Numbers with a fractional part are
  not modelled.
\<close>

datatype json =
    JUndefined
  | JNull
  | JBool bool
  | JNum int
  | JInfinity bool
  | JNaN
  | JStr string
  | JArr "json list"
  | JObj "(string \<times> json) list"

text \<open>
  What the body of the \<^verbatim>\<open>try\<close> block can throw: a \<^verbatim>\<open>NodeOperationError\<close> with its
  message, a TypeError of the JavaScript runtime (its message here is only indicative),
  and whatever error the HTTP helper rejects with.
\<close>

datatype error =
    NodeOperationError string
  | TypeError string
  | TransportError string

text \<open>Truthiness, as \<^verbatim>\<open>if (v)\<close>, \<^verbatim>\<open>v || d\<close> and \<^verbatim>\<open>!v\<close> read a value.\<close>

fun truthy :: "json \<Rightarrow> bool" where
  "truthy JUndefined = False"
| "truthy JNull = False"
| "truthy (JBool b) = b"
| "truthy (JNum n) = (n \<noteq> 0)"
| "truthy (JInfinity positive) = True"
| "truthy JNaN = False"
| "truthy (JStr s) = (s \<noteq> [])"
| "truthy (JArr xs) = True"
| "truthy (JObj kvs) = True"

text \<open>Reading a property of \<^verbatim>\<open>null\<close> or \<^verbatim>\<open>undefined\<close> throws a TypeError.\<close>

fun nullish :: "json \<Rightarrow> bool" where
  "nullish JUndefined = True"
| "nullish JNull = True"
| "nullish v = False"

fun isArray :: "json \<Rightarrow> bool" where
  "isArray (JArr xs) = True"
| "isArray v = False"

subsection \<open>Numbers\<close>

text \<open>
  Doubles have a significand of 53 bits. A magnitude below \<open>2 ^ 53\<close> is a double. A larger
  one is rounded to a multiple of \<open>2 ^ (l - 53)\<close>, where \<open>l\<close> is its length in bits: to the
  nearest one, and to the one with an even quotient when two are equally near. A
  result of \<open>2 ^ 1024\<close> or more is infinity. This is the rounding of every arithmetic
  operation on doubles, applied here to exact integer results.
\<close>

function bit_length :: "int \<Rightarrow> nat" where
  "bit_length m = (if m \<le> 0 then 0 else Suc (bit_length (m div 2)))"
  by pat_completeness auto
termination
  by (relation "measure nat") auto

declare bit_length.simps [simp del]

definition round_to_double :: "int \<Rightarrow> int" where
  "round_to_double m =
     (let u = 2 ^ (bit_length m - 53); q = m div u; r = m mod u
      in if 2 * r < u \<or> (2 * r = u \<and> even q) then q * u else (q + 1) * u)"


text \<open>The double nearest to an integer: the result of an operation whose exact value is
  that integer.\<close>

definition double_of_int :: "int \<Rightarrow> json" where
  "double_of_int x =
     (let m = round_to_double \<bar>x\<bar>
      in if 2 ^ 1024 \<le> m then JInfinity (0 < x)
         else JNum (if x < 0 then - m else m))"

subsection \<open>Decimal rendering of numbers\<close>

text \<open>The decimal digits of an integer. \<^verbatim>\<open>Number.prototype.toString\<close> prints a double of
  magnitude up to \<open>2 ^ 53\<close> this way (beyond, it prints the shortest digits that read back
  as the same double, and an exponent from \<open>10 ^ 21\<close> on).\<close>

definition digit_char :: "nat \<Rightarrow> char" where
  "digit_char d = char_of (48 + d)"

fun show_nat :: "nat \<Rightarrow> string" where
  "show_nat n = (if n < 10 then [digit_char n] else show_nat (n div 10) @ [digit_char (n mod 10)])"

declare show_nat.simps [simp del]

definition show_int :: "int \<Rightarrow> string" where
  "show_int i = (if i < 0 then CHR ''-'' # show_nat (nat (- i)) else show_nat (nat i))"

subsection \<open>Own properties\<close>

text \<open>
  \<open>own_props v\<close> lists what the object spread \<^verbatim>\<open>{...v}\<close> copies: the properties of an
  object, the indexed elements of an array, the indexed characters of a string, nothing
  for the other values. Inherited (prototype) properties are not part of the model.
\<close>

fun own_props :: "json \<Rightarrow> (string \<times> json) list" where
  "own_props (JObj kvs) = kvs"
| "own_props (JArr xs) = zip (map show_nat [0..<length xs]) xs"
| "own_props (JStr s) = zip (map show_nat [0..<length s]) (map (\<lambda>c. JStr [c]) s)"
| "own_props v = []"

text \<open>\<open>get v k\<close> is \<^verbatim>\<open>v[k]\<close> on a value that is neither null nor undefined.\<close>

fun get :: "json \<Rightarrow> string \<Rightarrow> json" where
  "get (JObj kvs) k = (case map_of kvs k of Some v \<Rightarrow> v | None \<Rightarrow> JUndefined)"
| "get (JArr xs) k =
     (if k = ''length'' then JNum (int (length xs))
      else case map_of (own_props (JArr xs)) k of Some v \<Rightarrow> v | None \<Rightarrow> JUndefined)"
| "get (JStr s) k =
     (if k = ''length'' then JNum (int (length s))
      else case map_of (own_props (JStr s)) k of Some v \<Rightarrow> v | None \<Rightarrow> JUndefined)"
| "get v k = JUndefined"

text \<open>\<open>has_key k v\<close> is \<^verbatim>\<open>k in v\<close> for an object \<open>v\<close>.\<close>

definition has_key :: "string \<Rightarrow> json \<Rightarrow> bool" where
  "has_key k v = (k \<in> set (map fst (own_props v)))"

subsection \<open>String conversion, addition and concat\<close>

definition join :: "string \<Rightarrow> string list \<Rightarrow> string" where
  "join sep xs = (case xs of [] \<Rightarrow> [] | y # ys \<Rightarrow> y @ concat (map (\<lambda>z. sep @ z) ys))"

text \<open>\<^verbatim>\<open>String(v)\<close>: an array joins its elements with commas, printing null and undefined as
  the empty string.\<close>

fun js_toString :: "json \<Rightarrow> string" where
  "js_toString JUndefined = ''undefined''"
| "js_toString JNull = ''null''"
| "js_toString (JBool b) = (if b then ''true'' else ''false'')"
| "js_toString (JNum n) = show_int n"
| "js_toString (JInfinity positive) = (if positive then ''Infinity'' else ''-Infinity'')"
| "js_toString JNaN = ''NaN''"
| "js_toString (JStr s) = s"
| "js_toString (JArr xs) = join '','' (map (\<lambda>x. if nullish x then [] else js_toString x) xs)"
| "js_toString (JObj kvs) = ''[object Object]''"

text \<open>\<^verbatim>\<open>v + n\<close> for a finite number \<open>n\<close>. On numbers, booleans (1 and 0) and null (0)
  it is the sum of doubles: the exact sum, rounded. Infinity stays infinity,
  \<^verbatim>\<open>undefined + n\<close> and \<^verbatim>\<open>NaN + n\<close> are NaN. On strings, arrays and objects it is the
  concatenation of the two string forms.\<close>

fun js_add :: "json \<Rightarrow> int \<Rightarrow> json" where
  "js_add (JNum a) n = double_of_int (a + n)"
| "js_add (JBool b) n = double_of_int ((if b then 1 else 0) + n)"
| "js_add JNull n = double_of_int n"
| "js_add JUndefined n = JNaN"
| "js_add JNaN n = JNaN"
| "js_add (JInfinity positive) n = JInfinity positive"
| "js_add v n = JStr (js_toString v @ show_int n)"

text \<open>\<^verbatim>\<open>a.concat(b)\<close>: an array appends the elements of an array argument and any other
  argument as one element; a string appends the argument's string form; other receivers
  have no \<^verbatim>\<open>concat\<close> method.\<close>

fun js_concat :: "json \<Rightarrow> json \<Rightarrow> error + json" where
  "js_concat (JArr xs) (JArr ys) = Inr (JArr (xs @ ys))"
| "js_concat (JArr xs) v = Inr (JArr (xs @ [v]))"
| "js_concat (JStr s) v = Inr (JStr (s @ js_toString v))"
| "js_concat a v = Inl (TypeError ''allItems.concat is not a function'')"

section \<open>OAuth 1.0a request signing\<close>

subsection \<open>Percent encoding\<close>

definition hex_digit :: "nat \<Rightarrow> char" where
  "hex_digit d = (''0123456789ABCDEF'') ! (d mod 16)"

definition percent_byte :: "char \<Rightarrow> string" where
  "percent_byte c = [CHR ''%'', hex_digit (of_char c div 16), hex_digit (of_char c mod 16)]"

definition is_alnum :: "char \<Rightarrow> bool" where
  "is_alnum c = (let n = (of_char c :: nat) in
     (48 \<le> n \<and> n \<le> 57) \<or> (65 \<le> n \<and> n \<le> 90) \<or> (97 \<le> n \<and> n \<le> 122))"

text \<open>\<^verbatim>\<open>encodeURIComponent\<close> leaves the letters, the digits and \<^verbatim>\<open>- _ . ! ~ * ' ( )\<close> as they
  are and writes every other byte of the UTF-8 form as \<^verbatim>\<open>%XX\<close>.\<close>

definition uri_component_keeps :: "char \<Rightarrow> bool" where
  "uri_component_keeps c = (is_alnum c \<or> c \<in> set ''-_.!~*'' \<or> c = CHR 0x27 \<or> c \<in> set ''()'')"

definition encodeURIComponent :: "string \<Rightarrow> string" where
  "encodeURIComponent s = concat (map (\<lambda>c. if uri_component_keeps c then [c] else percent_byte c) s)"

subsection \<open>Credentials and the signature\<close>

record credentials =
  accountId :: string
  companyUrl :: string
  restletCompanyUrl :: "string option"
  consumerKey :: string
  consumerSecret :: string
  tokenKey :: string
  tokenSecret :: string

text \<open>
  The six signing blocks of \<^verbatim>\<open>execute\<close> are the same text up to the method, the base URL
  and the extra signable parameters, so they are modelled once. \<open>oauthParams\<close> is the
  object literal of the protocol parameters, \<open>allParams\<close> the merge with the extra
  parameters (a later key overwrites an earlier one), \<open>sortedParams\<close> the
  \<^verbatim>\<open>Object.keys(allParams).sort().map(...).join('&')\<close> chain. The HMAC-SHA256 of Node's
  \<^verbatim>\<open>crypto\<close> library, with its base64 digest, is the parameter \<open>hmac\<close>.
\<close>

definition oauthParams :: "credentials \<Rightarrow> string \<Rightarrow> string \<Rightarrow> (string \<times> string) list" where
  "oauthParams c timestamp nonce =
     [(''oauth_consumer_key'', consumerKey c),
      (''oauth_token'', tokenKey c),
      (''oauth_signature_method'', ''HMAC-SHA256''),
      (''oauth_timestamp'', timestamp),
      (''oauth_nonce'', nonce),
      (''oauth_version'', ''1.0'')]"

definition allParams :: "(string \<times> string) list \<Rightarrow> (string \<times> string) list \<Rightarrow> (string \<times> string) list" where
  "allParams oauth extra = fold (\<lambda>(k, v) m. AList.update k v m) extra oauth"

definition param_value :: "(string \<times> string) list \<Rightarrow> string \<Rightarrow> string" where
  "param_value m k = (case map_of m k of Some v \<Rightarrow> v | None \<Rightarrow> ''undefined'')"

definition sortedParams :: "(string \<times> string) list \<Rightarrow> string" where
  "sortedParams m =
     join ''&'' (map (\<lambda>key. encodeURIComponent key @ ''='' @ encodeURIComponent (param_value m key))
                     (sort (map fst m)))"

definition baseString :: "string \<Rightarrow> string \<Rightarrow> (string \<times> string) list \<Rightarrow> string" where
  "baseString method baseUrl m =
     method @ ''&'' @ encodeURIComponent baseUrl @ ''&'' @ encodeURIComponent (sortedParams m)"

definition signingKey :: "credentials \<Rightarrow> string" where
  "signingKey c = encodeURIComponent (consumerSecret c) @ ''&'' @ encodeURIComponent (tokenSecret c)"

definition signature :: "(string \<Rightarrow> string \<Rightarrow> string) \<Rightarrow> credentials \<Rightarrow> string \<Rightarrow> string
    \<Rightarrow> (string \<times> string) list \<Rightarrow> string \<Rightarrow> string \<Rightarrow> string" where
  "signature hmac c method baseUrl extra timestamp nonce =
     hmac (signingKey c) (baseString method baseUrl (allParams (oauthParams c timestamp nonce) extra))"

definition authHeader :: "(string \<Rightarrow> string \<Rightarrow> string) \<Rightarrow> credentials \<Rightarrow> string \<Rightarrow> string
    \<Rightarrow> (string \<times> string) list \<Rightarrow> string \<Rightarrow> string \<Rightarrow> string" where
  "authHeader hmac c method baseUrl extra timestamp nonce =
     ''OAuth realm=\"'' @ accountId c @ ''\",'' @
     ''oauth_consumer_key=\"'' @ consumerKey c @ ''\",'' @
     ''oauth_token=\"'' @ tokenKey c @ ''\",'' @
     ''oauth_signature_method=\"HMAC-SHA256\",'' @
     ''oauth_timestamp=\"'' @ timestamp @ ''\",'' @
     ''oauth_nonce=\"'' @ nonce @ ''\",'' @
     ''oauth_version=\"1.0\",'' @
     ''oauth_signature=\"'' @ encodeURIComponent (signature hmac c method baseUrl extra timestamp nonce) @ ''\"''"

section \<open>The host: parameters, clock, randomness and the HTTP helper\<close>

text \<open>
  \<open>params\<close> holds what \<^verbatim>\<open>this.getNodeParameter(name, i, default)\<close> returns for one input
  item, with the defaults already applied; \<open>binaryData\<close> is the base64 form of the
  item's binary property \<^verbatim>\<open>data\<close> when there is one, \<open>itemIndex\<close> the loop index \<^verbatim>\<open>i\<close>.
\<close>

record params =
  operation :: string
  query :: string
  returnAll :: bool
  limit :: int
  recordType :: string
  recordId :: string
  targetRecordType :: string
  body :: json
  scriptId :: string
  deployId :: string
  restletBody :: json
  pageSize :: int
  startIndexField :: string
  endIndexField :: string
  outputFieldName :: string
  uploadScriptId :: string
  uploadDeploymentId :: string
  folderId :: string
  fileName :: string
  binaryData :: "string option"
  itemIndex :: nat

record request =
  req_url :: string
  req_method :: string
  req_headers :: "(string \<times> string) list"
  req_body :: json
  req_qs :: "(string \<times> string) list"

record http_response =
  resp_body :: json
  resp_headers :: "(string \<times> string) list"

text \<open>
  What the code takes from its platform: the HMAC of \<^verbatim>\<open>crypto\<close>, the pair
  (\<^verbatim>\<open>Math.floor(Date.now() / 1000).toString()\<close>, \<^verbatim>\<open>crypto.randomBytes(16).toString('hex')\<close>)
  read for the \<open>n\<close>-th signed request, the WHATWG \<^verbatim>\<open>new URL(s)\<close> (returning
  \<^verbatim>\<open>protocol//host/pathname\<close> and the search parameters in order, or nothing when it
  throws), \<^verbatim>\<open>JSON.parse\<close>, and the remote server: its answer to the \<open>n\<close>-th request of the
  run, or the error with which \<^verbatim>\<open>this.helpers.request\<close> rejects.
\<close>

record host =
  hmac_sha256_base64 :: "string \<Rightarrow> string \<Rightarrow> string"
  entropy :: "nat \<Rightarrow> string \<times> string"
  parse_url :: "string \<Rightarrow> (string \<times> (string \<times> string) list) option"
  json_parse :: "string \<Rightarrow> json option"
  server :: "nat \<Rightarrow> request \<Rightarrow> error + http_response"

text \<open>The state threaded through an execution is the list of requests issued so far
  (what a spy on \<^verbatim>\<open>this.helpers.request\<close> records).\<close>

definition http_request :: "host \<Rightarrow> request list \<Rightarrow> request \<Rightarrow> (error + http_response) \<times> request list" where
  "http_request h log req = (server h (length log) req, log @ [req])"

definition authorization :: "host \<Rightarrow> credentials \<Rightarrow> request list \<Rightarrow> string \<Rightarrow> string
    \<Rightarrow> (string \<times> string) list \<Rightarrow> string" where
  "authorization h c log method baseUrl extra =
     (case entropy h (length log) of (timestamp, nonce) \<Rightarrow>
        authHeader (hmac_sha256_base64 h) c method baseUrl extra timestamp nonce)"

section \<open>SuiteQL: first page and cursor pagination\<close>

fun find_next :: "json list \<Rightarrow> error + json option" where
  "find_next [] = Inr None"
| "find_next (link # links) =
     (if nullish link then Inl (TypeError ''Cannot read properties of null (reading rel)'')
      else if get link ''rel'' = JStr ''next'' then Inr (Some link)
      else find_next links)"

text \<open>\<^verbatim>\<open>urlObj.searchParams.forEach((value, key) => { allParams[key] = value; })\<close>: the
  assignment to the key \<^verbatim>\<open>__proto__\<close> of a plain object adds no property when the value
  is a string, so that key never reaches \<^verbatim>\<open>Object.keys(allParams)\<close>.\<close>

definition signable_query :: "(string \<times> string) list \<Rightarrow> (string \<times> string) list" where
  "signable_query searchParams = filter (\<lambda>(key, v). key \<noteq> ''__proto__'') searchParams"

text \<open>\<^verbatim>\<open>response.links.find((link) => link.rel === 'next')\<close>; only an array has \<^verbatim>\<open>find\<close>.\<close>

definition links_find_next :: "json \<Rightarrow> error + json option" where
  "links_find_next links =
     (case links of JArr xs \<Rightarrow> find_next xs
      | _ \<Rightarrow> Inl (TypeError ''response.links.find is not a function''))"

definition suiteql_headers :: "string \<Rightarrow> (string \<times> string) list" where
  "suiteql_headers auth =
     [(''Authorization'', auth), (''Content-Type'', ''application/json''), (''Prefer'', ''transient'')]"

text \<open>
  The \<^verbatim>\<open>while (response.hasMore && response.links)\<close> loop. It returns the last response
  and the accumulated \<^verbatim>\<open>allItems\<close>. Nothing bounds the number of iterations, so the
  function is partial: \<open>None\<close> is a run that never leaves the loop. The \<^verbatim>\<open>href\<close> of the
  link is read as a string, as \<^verbatim>\<open>new URL\<close> reads its argument.
\<close>

partial_function (option) suiteql_pages ::
  "host \<Rightarrow> credentials \<Rightarrow> json \<Rightarrow> json \<Rightarrow> json \<Rightarrow> request list
    \<Rightarrow> ((error + json \<times> json) \<times> request list) option"
where
  "suiteql_pages h c requestBody response allItems log =
     (if truthy (get response ''hasMore'') \<and> truthy (get response ''links'') then
        (case links_find_next (get response ''links'') of
           Inl e \<Rightarrow> Some (Inl e, log)
         | Inr None \<Rightarrow> Some (Inr (response, allItems), log)
         | Inr (Some nextLink) \<Rightarrow>
             (case parse_url h (js_toString (get nextLink ''href'')) of
                None \<Rightarrow> Some (Inl (TypeError ''Invalid URL''), log)
              | Some (baseUrl, searchParams) \<Rightarrow>
                  (case http_request h log
                          \<lparr>req_url = js_toString (get nextLink ''href''),
                           req_method = ''POST'',
                           req_headers = suiteql_headers
                             (authorization h c log ''POST'' baseUrl
                                (signable_query searchParams)),
                           req_body = requestBody,
                           req_qs = []\<rparr> of
                     (Inl e, log') \<Rightarrow> Some (Inl e, log')
                   | (Inr r, log') \<Rightarrow>
                       (if nullish (resp_body r)
                        then Some (Inl (TypeError ''Cannot read properties of null (reading items)''), log')
                        else if truthy (get (resp_body r) ''items'')
                        then (case js_concat allItems (get (resp_body r) ''items'') of
                                Inl e \<Rightarrow> Some (Inl e, log')
                              | Inr allItems' \<Rightarrow>
                                  suiteql_pages h c requestBody (resp_body r) allItems' log')
                        else suiteql_pages h c requestBody (resp_body r) allItems log'))))
      else Some (Inr (response, allItems), log))"

declare suiteql_pages.simps [code]

text \<open>The object literal \<^verbatim>\<open>{...response, items: allItems, count: allItems.length, hasMore: false}\<close>.\<close>

definition suiteql_result :: "json \<Rightarrow> json \<Rightarrow> json" where
  "suiteql_result response allItems =
     JObj (AList.update ''hasMore'' (JBool False)
            (AList.update ''count'' (get allItems ''length'')
              (AList.update ''items'' allItems (own_props response))))"

text \<open>The \<^verbatim>\<open>resource === 'suiteql'\<close> branch for one item: the results pushed to
  \<^verbatim>\<open>returnData\<close>, or the error thrown, with the requests issued.\<close>

definition query_request :: "host \<Rightarrow> credentials \<Rightarrow> params \<Rightarrow> request list \<Rightarrow> request" where
  "query_request h c p log =
     (let baseUrl = ''https://'' @ companyUrl c @ ''/services/rest/query/v1/suiteql'';
          queryUrl = (if \<not> returnAll p then baseUrl @ ''?limit='' @ show_int (limit p) else baseUrl);
          extra = (if \<not> returnAll p then [(''limit'', show_int (limit p))] else [])
      in \<lparr>req_url = queryUrl,
          req_method = ''POST'',
          req_headers = suiteql_headers (authorization h c log ''POST'' baseUrl extra),
          req_body = JObj [(''q'', JStr (query p))],
          req_qs = []\<rparr>)"

definition suiteql_item ::
  "host \<Rightarrow> credentials \<Rightarrow> params \<Rightarrow> request list \<Rightarrow> ((error + json list) \<times> request list) option"
where
  "suiteql_item h c p log =
     (case http_request h log (query_request h c p log) of
        (Inl e, log1) \<Rightarrow> Some (Inl e, log1)
      | (Inr r, log1) \<Rightarrow>
          (if nullish (resp_body r)
           then Some (Inl (TypeError ''Cannot read properties of null (reading items)''), log1)
           else
             (let response = resp_body r;
                  allItems = (if truthy (get response ''items'') then get response ''items'' else JArr [])
              in case (if returnAll p \<and> truthy (get response ''hasMore'')
                       then suiteql_pages h c (JObj [(''q'', JStr (query p))]) response allItems log1
                       else Some (Inr (response, allItems), log1)) of
                   None \<Rightarrow> None
                 | Some (Inl e, log2) \<Rightarrow> Some (Inl e, log2)
                 | Some (Inr (response', allItems'), log2) \<Rightarrow>
                     Some (Inr [suiteql_result response' allItems'], log2))))"

section \<open>Record operations\<close>

definition id_operations :: "string list" where
  "id_operations = [''get'', ''update'', ''patch'', ''post'', ''transform'']"

definition methodMap :: "(string \<times> string) list" where
  "methodMap =
     [(''get'', ''GET''), (''create'', ''POST''), (''update'', ''PUT''),
      (''patch'', ''PATCH''), (''post'', ''POST''), (''transform'', ''POST'')]"

definition record_url :: "credentials \<Rightarrow> params \<Rightarrow> string" where
  "record_url c p =
     ''https://'' @ companyUrl c @ ''/services/rest/record/v1/'' @ recordType p
     @ (if operation p \<in> set id_operations \<and> recordId p \<noteq> [] then ''/'' @ recordId p else [])
     @ (if operation p = ''transform'' then ''/!transform/'' @ targetRecordType p else [])"

text \<open>A missing entry of \<^verbatim>\<open>methodMap\<close> is \<^verbatim>\<open>undefined\<close>, which the template of the base
  string prints as such.\<close>

definition record_method :: "params \<Rightarrow> string" where
  "record_method p = (case map_of methodMap (operation p) of Some m \<Rightarrow> m | None \<Rightarrow> ''undefined'')"

definition last_segment :: "char \<Rightarrow> string \<Rightarrow> string" where
  "last_segment sep s = rev (takeWhile (\<lambda>ch. ch \<noteq> sep) (rev s))"

text \<open>\<^verbatim>\<open>location.match(/\/([^\/]+)$/)\<close>: the text after the last slash, when there is a slash
  and that text is not empty.\<close>

definition idMatch :: "string \<Rightarrow> string option" where
  "idMatch location =
     (if CHR ''/'' \<in> set location \<and> last_segment (CHR ''/'') location \<noteq> []
      then Some (last_segment (CHR ''/'') location) else None)"

definition record_responseData :: "params \<Rightarrow> http_response \<Rightarrow> json" where
  "record_responseData p r =
     (let responseData = (if truthy (resp_body r) then resp_body r else JObj [])
      in if operation p = ''create'' then
           (case map_of (resp_headers r) ''location'' of
              None \<Rightarrow> responseData
            | Some location \<Rightarrow>
                (if location = [] then responseData
                 else case idMatch location of
                        None \<Rightarrow> responseData
                      | Some ident \<Rightarrow>
                          JObj (AList.update ''location'' (JStr location)
                                 (AList.update ''id'' (JStr ident) (own_props responseData)))))
         else responseData)"

text \<open>The \<^verbatim>\<open>resource === 'record'\<close> branch. The check of the record ID comes after the
  request data is built and before the header is signed and the request is sent.\<close>

definition record_item ::
  "host \<Rightarrow> credentials \<Rightarrow> params \<Rightarrow> request list \<Rightarrow> (error + json list) \<times> request list"
where
  "record_item h c p log =
     (if recordId p = [] \<and> operation p \<in> set id_operations
      then (Inl (NodeOperationError ''Record ID is required for this operation.''), log)
      else
        (case http_request h log
                \<lparr>req_url = record_url c p,
                 req_method = record_method p,
                 req_headers = suiteql_headers
                   (authorization h c log (record_method p) (record_url c p) []),
                 req_body = (if operation p = ''get'' then JUndefined else body p),
                 req_qs = []\<rparr> of
           (Inl e, log') \<Rightarrow> (Inl e, log')
         | (Inr r, log') \<Rightarrow> (Inr [record_responseData p r], log')))"

section \<open>RESTlet calls and offset pagination\<close>

text \<open>\<^verbatim>\<open>restletCompanyUrl || companyUrl\<close>: an absent or empty string is falsy.\<close>

definition restletBaseUrl :: "credentials \<Rightarrow> string" where
  "restletBaseUrl c =
     (case restletCompanyUrl c of
        Some u \<Rightarrow> (if u \<noteq> [] then u else companyUrl c)
      | None \<Rightarrow> companyUrl c)"

definition restletUrl :: "credentials \<Rightarrow> params \<Rightarrow> string" where
  "restletUrl c p =
     ''https://'' @ restletBaseUrl c @ ''/app/site/hosting/restlet.nl?script='' @ scriptId p
     @ ''&deploy='' @ deployId p"

definition restlet_headers :: "string \<Rightarrow> (string \<times> string) list" where
  "restlet_headers auth = [(''Authorization'', auth), (''Content-Type'', ''application/json'')]"

definition restlet_auth :: "host \<Rightarrow> credentials \<Rightarrow> params \<Rightarrow> request list \<Rightarrow> string" where
  "restlet_auth h c p log =
     authorization h c log ''POST'' (''https://'' @ restletBaseUrl c @ ''/app/site/hosting/restlet.nl'')
       [(''script'', scriptId p), (''deploy'', deployId p)]"

definition possibleFields :: "string list" where
  "possibleFields = [''results'', ''data'', ''items'', ''records'']"

text \<open>The \<^verbatim>\<open>for (const field of possibleFields)\<close> loop with its \<^verbatim>\<open>break\<close>.\<close>

fun scan_fields :: "string list \<Rightarrow> json \<Rightarrow> json list option" where
  "scan_fields [] response = None"
| "scan_fields (field # others) response =
     (if has_key field response \<and> isArray (get response field)
      then (case get response field of JArr xs \<Rightarrow> Some xs | _ \<Rightarrow> None)
      else scan_fields others response)"

text \<open>The three shapes of a page: an array, an object (scanned), anything else. \<open>None\<close> is
  the case in which the code pushes the raw response and leaves the loop.\<close>

definition extract_results :: "json \<Rightarrow> json list option" where
  "extract_results response =
     (case response of
        JArr xs \<Rightarrow> Some xs
      | JObj kvs \<Rightarrow> scan_fields possibleFields response
      | _ \<Rightarrow> None)"

definition paginatedBody :: "params \<Rightarrow> json \<Rightarrow> json \<Rightarrow> json" where
  "paginatedBody p parsedBody currentStart =
     JObj (AList.update (endIndexField p) (js_add currentStart (pageSize p))
            (AList.update (startIndexField p) currentStart (own_props parsedBody)))"

text \<open>
  The \<^verbatim>\<open>while (hasMore)\<close> loop. It returns what an abort pushed to \<^verbatim>\<open>returnData\<close> (the raw
  response, or nothing) and the final \<^verbatim>\<open>allResults\<close>. The loop has no bound of its own.
\<close>

definition page_request :: "host \<Rightarrow> credentials \<Rightarrow> params \<Rightarrow> json \<Rightarrow> json \<Rightarrow> request list \<Rightarrow> request" where
  "page_request h c p parsedBody currentStart log =
     \<lparr>req_url = restletUrl c p,
      req_method = ''POST'',
      req_headers = restlet_headers (restlet_auth h c p log),
      req_body = paginatedBody p parsedBody currentStart,
      req_qs = []\<rparr>"

partial_function (option) restlet_pages ::
  "host \<Rightarrow> credentials \<Rightarrow> params \<Rightarrow> json \<Rightarrow> json list \<Rightarrow> json \<Rightarrow> request list
    \<Rightarrow> ((error + json list \<times> json list) \<times> request list) option"
where
  "restlet_pages h c p parsedBody allResults currentStart log =
     (case http_request h log (page_request h c p parsedBody currentStart log) of
        (Inl e, log') \<Rightarrow> Some (Inl e, log')
      | (Inr r, log') \<Rightarrow>
          (case extract_results (resp_body r) of
             None \<Rightarrow> Some (Inr ([resp_body r], allResults), log')
           | Some results \<Rightarrow>
               (if length results > 0 then
                  (if int (length results) < pageSize p
                   then Some (Inr ([], allResults @ results), log')
                   else restlet_pages h c p parsedBody (allResults @ results)
                          (js_add currentStart (pageSize p)) log')
                else Some (Inr ([], allResults), log'))))"

declare restlet_pages.simps [code]

text \<open>\<^verbatim>\<open>{ [outputFieldName]: allResults, total: allResults.length }\<close>.\<close>

definition aggregate :: "params \<Rightarrow> json list \<Rightarrow> json" where
  "aggregate p allResults =
     JObj (AList.update ''total'' (JNum (int (length allResults)))
            [(outputFieldName p, JArr allResults)])"

text \<open>After the loop: what an abort pushed, then the aggregate
  \<^verbatim>\<open>if (allResults.length > 0)\<close>.\<close>

definition restlet_emit :: "params \<Rightarrow> json list \<Rightarrow> json list \<Rightarrow> json list" where
  "restlet_emit p pushed allResults =
     pushed @ (if length allResults > 0 then [aggregate p allResults] else [])"

definition initial_start :: "params \<Rightarrow> json \<Rightarrow> json" where
  "initial_start p parsedBody =
     (if truthy (get parsedBody (startIndexField p)) then get parsedBody (startIndexField p) else JNum 0)"

text \<open>\<^verbatim>\<open>typeof restletBody === 'string' ? JSON.parse(restletBody) : restletBody\<close>; the message
  of the error ends with the parser's own text, which is left out.\<close>

definition parse_body :: "host \<Rightarrow> json \<Rightarrow> error + json" where
  "parse_body h b =
     (case b of
        JStr s \<Rightarrow> (case json_parse h s of
                     None \<Rightarrow> Inl (NodeOperationError ''Invalid JSON in RESTlet body: '')
                   | Some v \<Rightarrow> Inr v)
      | _ \<Rightarrow> Inr b)"

definition restlet_call_item ::
  "host \<Rightarrow> credentials \<Rightarrow> params \<Rightarrow> request list \<Rightarrow> ((error + json list) \<times> request list) option"
where
  "restlet_call_item h c p log =
     (case parse_body h (restletBody p) of
        Inl e \<Rightarrow> Some (Inl e, log)
      | Inr parsedBody \<Rightarrow>
          (if returnAll p then
             (if nullish parsedBody
              then Some (Inl (TypeError ''Cannot read properties of null''), log)
              else
                (case restlet_pages h c p parsedBody [] (initial_start p parsedBody) log of
                   None \<Rightarrow> None
                 | Some (Inl e, log') \<Rightarrow> Some (Inl e, log')
                 | Some (Inr (pushed, allResults), log') \<Rightarrow>
                     Some (Inr (restlet_emit p pushed allResults), log')))
           else
             (case http_request h log
                     \<lparr>req_url = restletUrl c p,
                      req_method = ''POST'',
                      req_headers = restlet_headers (restlet_auth h c p log),
                      req_body = parsedBody,
                      req_qs = []\<rparr> of
                (Inl e, log') \<Rightarrow> Some (Inl e, log')
              | (Inr r, log') \<Rightarrow> Some (Inr [resp_body r], log'))))"

subsection \<open>File upload\<close>

definition toLowerCase :: "string \<Rightarrow> string" where
  "toLowerCase s =
     map (\<lambda>ch. if 65 \<le> (of_char ch :: nat) \<and> (of_char ch :: nat) \<le> 90
                then char_of ((of_char ch :: nat) + 32) else ch) s"

definition fileTypeOf :: "string \<Rightarrow> error + string" where
  "fileTypeOf name =
     (let extension = toLowerCase (last_segment (CHR ''.'') name)
      in if extension = ''pdf'' then Inr ''PDF''
         else if extension = ''xlsx'' \<or> extension = ''xls'' then Inr ''EXCEL''
         else if extension = ''csv'' then Inr ''CSV''
         else Inl (NodeOperationError (''Unsupported file type: .'' @ extension
                @ ''. Only PDF, Excel, and CSV files are supported.'')))"

definition upload_item ::
  "host \<Rightarrow> credentials \<Rightarrow> params \<Rightarrow> request list \<Rightarrow> (error + json list) \<times> request list"
where
  "upload_item h c p log =
     (case binaryData p of
        None \<Rightarrow> (Inl (NodeOperationError (''No binary data found on item '' @ show_nat (itemIndex p)
                   @ ''. The node expects an incoming file.'')), log)
      | Some base64Content \<Rightarrow>
          (case fileTypeOf (fileName p) of
             Inl e \<Rightarrow> (Inl e, log)
           | Inr fileType \<Rightarrow>
               (let url = ''https://'' @ restletBaseUrl c @ ''/app/site/hosting/restlet.nl'';
                    extra = [(''script'', uploadScriptId p), (''deploy'', uploadDeploymentId p)]
                in case http_request h log
                          \<lparr>req_url = url,
                           req_method = ''POST'',
                           req_headers = restlet_headers (authorization h c log ''POST'' url extra),
                           req_body = JObj [(''postType'', JStr ''uploadFile''),
                                            (''folderId'', JStr (folderId p)),
                                            (''name'', JStr (fileName p)),
                                            (''base64Content'', JStr base64Content),
                                            (''fileType'', JStr fileType)],
                           req_qs = extra\<rparr> of
                     (Inl e, log') \<Rightarrow> (Inl e, log')
                   | (Inr r, log') \<Rightarrow> (Inr [resp_body r], log'))))"

section \<open>One input item\<close>

text \<open>The body of the \<^verbatim>\<open>try\<close> block of \<^verbatim>\<open>execute\<close> for one item: \<open>Inl\<close> is the error it
  throws, \<open>Inr\<close> the results it pushes to \<^verbatim>\<open>returnData\<close>; the second component is the list
  of requests issued.\<close>

definition process_item ::
  "host \<Rightarrow> credentials \<Rightarrow> string \<Rightarrow> params \<Rightarrow> request list
    \<Rightarrow> ((error + json list) \<times> request list) option"
where
  "process_item h c resource p log =
     (if resource = ''suiteql'' then suiteql_item h c p log
      else if resource = ''record'' then Some (record_item h c p log)
      else if resource = ''restlet'' then
        (if operation p = ''call'' then restlet_call_item h c p log
         else if operation p = ''uploadFile'' then Some (upload_item h c p log)
         else Some (Inl (NodeOperationError (''The operation \"'' @ operation p
                      @ ''\" is not supported for RESTlet resource.'')), log))
      else Some (Inl (NodeOperationError (''The resource \"'' @ resource
                   @ ''\" is not supported.'')), log))"

section \<open>A scripted server\<close>

text \<open>
  The mock of the test properties: a server that answers the \<open>n\<close>-th request with the
  \<open>n\<close>-th body of a list, whatever is asked, and fails once the list is used up; a host
  around it with a fixed clock and nonce, a constant in place of the HMAC, and a URL
  parser that cuts the query string off.
\<close>

definition scripted_server :: "json list \<Rightarrow> nat \<Rightarrow> request \<Rightarrow> error + http_response" where
  "scripted_server bodies n req =
     (if n < length bodies then Inr \<lparr>resp_body = bodies ! n, resp_headers = []\<rparr>
      else Inl (TransportError ''no more responses''))"

definition mock_host :: "json list \<Rightarrow> host" where
  "mock_host bodies =
     \<lparr>hmac_sha256_base64 = (\<lambda>k m. ''c2ln''),
      entropy = (\<lambda>n. (''1700000000'', ''00'')),
      parse_url = (\<lambda>s. if s = [] then None else Some (takeWhile (\<lambda>ch. ch \<noteq> CHR ''?'') s, [])),
      json_parse = (\<lambda>s. None),
      server = scripted_server bodies\<rparr>"

definition mock_credentials :: credentials where
  "mock_credentials =
     \<lparr>accountId = ''ACCT'', companyUrl = ''a.example'', restletCompanyUrl = None,
      consumerKey = ''ck'', consumerSecret = ''cs'', tokenKey = ''tk'', tokenSecret = ''ts''\<rparr>"

definition mock_params :: params where
  "mock_params =
     \<lparr>operation = ''call'', query = ''SELECT 1'', returnAll = True, limit = 1000,
      recordType = ''salesOrder'', recordId = [], targetRecordType = ''invoice'', body = JObj [],
      scriptId = ''7'', deployId = ''1'', restletBody = JObj [(''id'', JStr ''s'')], pageSize = 3,
      startIndexField = ''start'', endIndexField = ''end'', outputFieldName = ''results'',
      uploadScriptId = ''8'', uploadDeploymentId = ''1'', folderId = ''5'', fileName = ''a.PDF'',
      binaryData = Some ''QUJD'', itemIndex = 0\<rparr>"

text \<open>A SuiteQL page with a \<^verbatim>\<open>next\<close> link among its links.\<close>

definition mock_links :: json where
  "mock_links =
     JArr [JObj [(''rel'', JStr ''self''), (''href'', JStr ''https://a.example/q'')],
           JObj [(''rel'', JStr ''next''), (''href'', JStr ''https://a.example/q?offset=2'')]]"

definition mock_page :: "bool \<Rightarrow> json list \<Rightarrow> json" where
  "mock_page hasMore rows =
     JObj [(''links'', mock_links), (''count'', JNum (int (length rows))),
           (''hasMore'', JBool hasMore), (''items'', JArr rows), (''offset'', JNum 0)]"

section \<open>The documented behaviour, for comparison\<close>

subsection \<open>The signature base string as the specification words it\<close>

text \<open>
  The specification asks for percent-encoding per RFC 3986, whose unreserved characters
  are the letters, the digits and \<^verbatim>\<open>- . _ ~\<close>; OAuth 1.0a (RFC 5849, section 3.6) encodes
  every other byte. The definitions below follow that wording step by step, with the
  same sort and join as above.
\<close>

definition rfc3986_unreserved :: "char \<Rightarrow> bool" where
  "rfc3986_unreserved c = (is_alnum c \<or> c \<in> set ''-._~'')"

definition percentEncode :: "string \<Rightarrow> string" where
  "percentEncode s = concat (map (\<lambda>c. if rfc3986_unreserved c then [c] else percent_byte c) s)"

definition spec_sortedParams :: "(string \<times> string) list \<Rightarrow> string" where
  "spec_sortedParams m =
     join ''&'' (map (\<lambda>key. percentEncode key @ ''='' @ percentEncode (param_value m key))
                     (sort (map fst m)))"

definition spec_baseString :: "string \<Rightarrow> string \<Rightarrow> (string \<times> string) list \<Rightarrow> string" where
  "spec_baseString method baseUrl m =
     method @ ''&'' @ percentEncode baseUrl @ ''&'' @ percentEncode (spec_sortedParams m)"

definition spec_signingKey :: "credentials \<Rightarrow> string" where
  "spec_signingKey c = percentEncode (consumerSecret c) @ ''&'' @ percentEncode (tokenSecret c)"

definition spec_signature :: "(string \<Rightarrow> string \<Rightarrow> string) \<Rightarrow> credentials \<Rightarrow> string \<Rightarrow> string
    \<Rightarrow> (string \<times> string) list \<Rightarrow> string \<Rightarrow> string \<Rightarrow> string" where
  "spec_signature hmac c method baseUrl extra timestamp nonce =
     hmac (spec_signingKey c)
          (spec_baseString method baseUrl (allParams (oauthParams c timestamp nonce) extra))"

text \<open>The characters on which the two encodings differ.\<close>

definition sub_delims_kept :: "char set" where
  "sub_delims_kept = {CHR ''!'', CHR ''*'', CHR 0x27, CHR ''('', CHR '')''}"

subsection \<open>The array under a field name\<close>

text \<open>The array that a keyed response holds under a field name, if it holds one there.\<close>

definition array_at :: "(string \<times> json) list \<Rightarrow> string \<Rightarrow> json list option" where
  "array_at kvs field = (case map_of kvs field of Some (JArr xs) \<Rightarrow> Some xs | _ \<Rightarrow> None)"

subsection \<open>Where the addition is exact\<close>

text \<open>
  The safe integers, and the pairs of a position and a page size on which \<open>js_add\<close> is
  the program's \<^verbatim>\<open>+\<close>: both are values of the program (doubles), and where \<^verbatim>\<open>+\<close>
  prints numbers, because the position is a string, an array or an object, the numbers
  it prints are safe integers, which print as their decimal digits.
\<close>

definition safe_integer :: "int \<Rightarrow> bool" where
  "safe_integer n = (\<bar>n\<bar> \<le> 2 ^ 53)"



subsection \<open>Follow-up requests of a cursor-paginated run\<close>

text \<open>
  \<open>follow_ups h n response rqs\<close>: the requests \<open>rqs\<close>, sent as the \<open>n\<close>-th and later
  requests after \<open>response\<close> was received, each go to the \<^verbatim>\<open>href\<close> of the \<^verbatim>\<open>next\<close> link of
  the response before it, as that response gives it.
\<close>

fun follow_ups :: "host \<Rightarrow> nat \<Rightarrow> json \<Rightarrow> request list \<Rightarrow> bool" where
  "follow_ups h n response [] = True"
| "follow_ups h n response (rq # rest) =
     (case links_find_next (get response ''links'') of
        Inr (Some nextLink) \<Rightarrow>
          req_url rq = js_toString (get nextLink ''href'') \<and>
          (rest = [] \<or>
           (case server h n rq of
              Inr r \<Rightarrow> follow_ups h (Suc n) (resp_body r) rest
            | Inl e \<Rightarrow> False))
      | _ \<Rightarrow> False)"

subsection \<open>Pages of a cursor-paginated run\<close>

text \<open>
  The items a page contributes (nothing when \<^verbatim>\<open>items\<close> is missing or falsy), the shape
  the response contract gives a page (an object or other non-null value whose
  \<^verbatim>\<open>items\<close>, when truthy, is an array), and the condition under which the loop goes on
  from a page: \<^verbatim>\<open>hasMore\<close> and \<^verbatim>\<open>links\<close> are truthy, \<^verbatim>\<open>links\<close> has an entry with
  \<^verbatim>\<open>rel === 'next'\<close>, and its \<^verbatim>\<open>href\<close> parses as a URL.
\<close>

definition page_items :: "json \<Rightarrow> json list" where
  "page_items r = (case get r ''items'' of JArr xs \<Rightarrow> xs | _ \<Rightarrow> [])"

definition well_formed_page :: "json \<Rightarrow> bool" where
  "well_formed_page r = (\<not> nullish r \<and> (isArray (get r ''items'') \<or> \<not> truthy (get r ''items'')))"

definition has_next_page :: "host \<Rightarrow> json \<Rightarrow> bool" where
  "has_next_page h r =
     (truthy (get r ''hasMore'') \<and> truthy (get r ''links'') \<and>
      (case links_find_next (get r ''links'') of
         Inr (Some nextLink) \<Rightarrow> parse_url h (js_toString (get nextLink ''href'')) \<noteq> None
       | _ \<Rightarrow> False))"

section \<open>Verified properties\<close>

subsection \<open>Sums of safe integers\<close>

text \<open>A sum of magnitude up to \<open>2 ^ 53\<close> is exact; one step further it is not.\<close>

lemma bit_length_le: "m < 2 ^ k \<Longrightarrow> bit_length m \<le> k"
proof (induction k arbitrary: m)
  case 0
  then show ?case by (simp add: bit_length.simps)
next
  case (Suc k)
  then have "m div 2 < 2 ^ k" by simp
  from Suc.IH[OF this] show ?case by (subst bit_length.simps) simp
qed

lemma bit_length_power: "bit_length (2 ^ k) = Suc k"
proof (induction k)
  case 0
  show ?case by (simp add: bit_length.simps[of 1] bit_length.simps[of 0])
next
  case (Suc k)
  have "bit_length (2 ^ Suc k) = Suc (bit_length (2 ^ Suc k div 2))"
    by (subst bit_length.simps) simp
  with Suc show ?case by simp
qed

lemma round_to_double_safe: "0 \<le> m \<Longrightarrow> m \<le> 2 ^ 53 \<Longrightarrow> round_to_double m = m"
proof (cases "m = 2 ^ 53")
  case True
  have "bit_length 9007199254740992 = 54" using bit_length_power[of 53] by simp
  with True show ?thesis by (simp add: round_to_double_def)
next
  case False
  assume "0 \<le> m" "m \<le> 2 ^ 53"
  with False have "m < 2 ^ 53" by simp
  from bit_length_le[OF this] show ?thesis by (simp add: round_to_double_def)
qed


lemma double_of_int_safe: "safe_integer x \<Longrightarrow> double_of_int x = JNum x"
proof -
  assume "safe_integer x"
  then have m: "\<bar>x\<bar> \<le> 2 ^ 53" by (simp add: safe_integer_def)
  have "(2::int) ^ 53 < 2 ^ 1024" by (rule power_strict_increasing) simp_all
  with m have "\<not> (2::int) ^ 1024 \<le> \<bar>x\<bar>" by linarith
  then show ?thesis
    using round_to_double_safe[OF _ m] by (simp add: double_of_int_def Let_def)
qed

lemma js_add_safe: "safe_integer (a + n) \<Longrightarrow> js_add (JNum a) n = JNum (a + n)"
  by (simp add: double_of_int_safe)

lemma js_add_at_2_53: "js_add (JNum (2 ^ 53)) 1 = JNum (2 ^ 53)"
proof -
  have "bit_length 4503599627370496 = 53" using bit_length_power[of 52] by simp
  then have b: "bit_length 9007199254740993 = 54"
    by (subst bit_length.simps) simp
  have "round_to_double 9007199254740993 = 9007199254740992"
    by (simp add: round_to_double_def b)
  then show ?thesis by (simp add: double_of_int_def)
qed


subsection \<open>Record operations\<close>

text \<open>
  Claim C9. A Record operation among get, update, patch, post and transform that is
  invoked with an empty record ID throws the operational error ``Record ID is required
  for this operation.'' and the list of issued requests is what it was before: no HTTP
  call is made for the item.
\<close>

theorem C9_missing_record_id_fails_fast:
  assumes "operation p \<in> {''get'', ''update'', ''patch'', ''post'', ''transform''}"
    and "recordId p = []"
  shows "process_item h c ''record'' p log
           = Some (Inl (NodeOperationError ''Record ID is required for this operation.''), log)"
  using assms by (auto simp: process_item_def record_item_def id_operations_def)

theorem C9_missing_record_id_witness:
  "operation (mock_params\<lparr>operation := ''patch''\<rparr>) \<in> {''get'', ''update'', ''patch'', ''post'', ''transform''}
   \<and> recordId (mock_params\<lparr>operation := ''patch''\<rparr>) = []
   \<and> process_item (mock_host []) mock_credentials ''record'' (mock_params\<lparr>operation := ''patch''\<rparr>) []
         = Some (Inl (NodeOperationError ''Record ID is required for this operation.''), [])"
  using C9_missing_record_id_fails_fast
          [of "mock_params\<lparr>operation := ''patch''\<rparr>" "mock_host []" mock_credentials "[]"]
  by (simp add: mock_params_def)

subsection \<open>SuiteQL\<close>

lemma find_next_absent:
  "\<forall>l \<in> set ls. \<not> nullish l \<and> get l ''rel'' \<noteq> JStr ''next'' \<Longrightarrow> find_next ls = Inr None"
  by (induction ls) auto

text \<open>
  Claim C8. When a response reports \<^verbatim>\<open>hasMore\<close> true and either has no (truthy)
  \<^verbatim>\<open>links\<close> field or its \<^verbatim>\<open>links\<close> is a sequence of entries (none of them null or
  undefined, as the response contract has it) none of which has \<^verbatim>\<open>rel\<close> equal to
  \<^verbatim>\<open>next\<close>, the pagination loop returns at once (it does not run forever), with no
  error, with the response and the accumulated items as they are, and without issuing
  a request.
\<close>

theorem C8_no_next_link_leaves_loop:
  assumes "truthy (get response ''hasMore'')"
    and "\<not> truthy (get response ''links'')
         \<or> (\<exists>ls. get response ''links'' = JArr ls \<and> (\<forall>l \<in> set ls. \<not> nullish l \<and> get l ''rel'' \<noteq> JStr ''next''))"
  shows "suiteql_pages h c requestBody response allItems log = Some (Inr (response, allItems), log)"
proof (cases "truthy (get response ''links'')")
  case False
  then show ?thesis by (subst suiteql_pages.simps) simp
next
  case True
  with assms(2) obtain ls where ls: "get response ''links'' = JArr ls"
    and none: "\<forall>l \<in> set ls. \<not> nullish l \<and> get l ''rel'' \<noteq> JStr ''next''" by blast
  have "links_find_next (get response ''links'') = Inr None"
    using find_next_absent[OF none] by (simp add: links_find_next_def ls)
  then show ?thesis by (subst suiteql_pages.simps) simp
qed

theorem C8_no_next_link_witness:
  "truthy (get (JObj [(''hasMore'', JBool True), (''items'', JArr [JNum 1]),
                      (''links'', JArr [JObj [(''rel'', JStr ''self''), (''href'', JStr ''https://a.example/q'')]])]) ''hasMore'')
   \<and> suiteql_pages (mock_host []) mock_credentials (JObj [(''q'', JStr ''SELECT 1'')])
        (JObj [(''hasMore'', JBool True), (''items'', JArr [JNum 1]),
               (''links'', JArr [JObj [(''rel'', JStr ''self''), (''href'', JStr ''https://a.example/q'')]])])
        (JArr [JNum 1]) []
      = Some (Inr (JObj [(''hasMore'', JBool True), (''items'', JArr [JNum 1]),
               (''links'', JArr [JObj [(''rel'', JStr ''self''), (''href'', JStr ''https://a.example/q'')]])], JArr [JNum 1]), [])"
  using C8_no_next_link_leaves_loop
    [of "JObj [(''hasMore'', JBool True), (''items'', JArr [JNum 1]),
               (''links'', JArr [JObj [(''rel'', JStr ''self''), (''href'', JStr ''https://a.example/q'')]])]"
        "mock_host []" mock_credentials "JObj [(''q'', JStr ''SELECT 1'')]" "JArr [JNum 1]" "[]"]
  by simp

text \<open>
  Claim C2. With return-all disabled one request is made and the first page is emitted,
  but its \<^verbatim>\<open>hasMore\<close> is not the server's: the result literal sets \<^verbatim>\<open>hasMore: false\<close>
  on every path. Here the server reports \<^verbatim>\<open>hasMore: true\<close> and the emitted result says
  false.
\<close>

theorem C2_first_page_hasMore_overwritten:
  "map_option (\<lambda>(res, log). (res, length log))
     (process_item (mock_host [mock_page True [JNum 1, JNum 2]]) mock_credentials ''suiteql''
        (mock_params\<lparr>returnAll := False\<rparr>) [])
     = Some (Inr [JObj [(''links'', mock_links), (''count'', JNum 2), (''hasMore'', JBool False),
                        (''items'', JArr [JNum 1, JNum 2]), (''offset'', JNum 0)]], 1)
   \<and> get (mock_page True [JNum 1, JNum 2]) ''hasMore'' = JBool True"
  by (simp add: process_item_def suiteql_item_def http_request_def query_request_def mock_host_def
        scripted_server_def mock_page_def mock_params_def suiteql_result_def)

text \<open>Every result of the SuiteQL branch carries \<^verbatim>\<open>hasMore: false\<close>, whatever the flag.\<close>

lemma suiteql_item_hasMore_forced:
  assumes "suiteql_item h c p log = Some (Inr out, log')"
  shows "\<exists>res. out = [res] \<and> get res ''hasMore'' = JBool False"
  using assms
  by (auto simp: suiteql_item_def suiteql_result_def Let_def update_conv' map_of_map_restrict split: prod.splits sum.splits if_splits option.splits)

lemma page_items_falsy: "\<not> truthy v \<Longrightarrow> (case v of JArr xs \<Rightarrow> xs | _ \<Rightarrow> []) = []"
  by (cases v) auto

text \<open>The loop, started on a page \<open>r0\<close> with the pages \<open>ps\<close> still to come.\<close>

lemma suiteql_pages_run:
  assumes "\<forall>i<length ps. \<forall>req. \<exists>r. server h (length log + i) req = Inr r \<and> resp_body r = ps ! i"
    and "\<forall>r\<in>set ps. well_formed_page r"
    and "\<forall>r\<in>set (butlast (r0 # ps)). has_next_page h r"
    and "\<not> truthy (get (last (r0 # ps)) ''hasMore'')"
  shows "\<exists>log'. suiteql_pages h c b r0 (JArr acc) log
                  = Some (Inr (last (r0 # ps), JArr (acc @ concat (map page_items ps))), log')
               \<and> length log' = length log + length ps"
  using assms
proof (induction ps arbitrary: r0 acc log)
  case Nil
  then show ?case by (subst suiteql_pages.simps) simp
next
  case (Cons r1 ps)
  from Cons.prems(3) have nxt: "has_next_page h r0" by simp
  then obtain nextLink baseUrl searchParams where
    hm: "truthy (get r0 ''hasMore'')" "truthy (get r0 ''links'')"
    and fn: "links_find_next (get r0 ''links'') = Inr (Some nextLink)"
    and pu: "parse_url h (js_toString (get nextLink ''href'')) = Some (baseUrl, searchParams)"
    by (auto simp: has_next_page_def split: sum.splits option.splits)
  define req where "req = \<lparr>req_url = js_toString (get nextLink ''href''), req_method = ''POST'',
      req_headers = suiteql_headers (authorization h c log ''POST'' baseUrl
                                       (signable_query searchParams)),
      req_body = b, req_qs = []\<rparr>"
  from Cons.prems(1)[rule_format, of 0 req] obtain r where
    r: "server h (length log) req = Inr r" "resp_body r = r1" by auto
  have wf: "\<not> nullish r1" "isArray (get r1 ''items'') \<or> \<not> truthy (get r1 ''items'')"
    using Cons.prems(2) by (auto simp: well_formed_page_def)
  have srv: "\<forall>i<length ps. \<forall>rq. \<exists>r. server h (length (log @ [req]) + i) rq = Inr r \<and> resp_body r = ps ! i"
  proof (intro allI impI)
    fix i rq assume "i < length ps"
    then have "Suc i < length (r1 # ps)" by simp
    from Cons.prems(1)[rule_format, OF this, of rq] show "\<exists>r. server h (length (log @ [req]) + i) rq = Inr r \<and> resp_body r = ps ! i"
      by simp
  qed
  have IH: "\<exists>log'. suiteql_pages h c b r1 (JArr acc') (log @ [req])
                  = Some (Inr (last (r1 # ps), JArr (acc' @ concat (map page_items ps))), log')
               \<and> length log' = length (log @ [req]) + length ps" for acc'
    using Cons.IH[of "log @ [req]" r1 acc', OF srv] Cons.prems(2,3,4) by simp
  have step: "suiteql_pages h c b r0 (JArr acc) log
                = suiteql_pages h c b r1 (JArr (acc @ page_items r1)) (log @ [req])"
  proof (cases "truthy (get r1 ''items'')")
    case True
    with wf(2) obtain xs where xs: "get r1 ''items'' = JArr xs" by (cases "get r1 ''items''") auto
    show ?thesis
      by (subst suiteql_pages.simps)
         (simp add: hm fn pu http_request_def req_def[symmetric] r wf(1) xs page_items_def)
  next
    case False
    then have "page_items r1 = []" by (simp add: page_items_def page_items_falsy)
    with False show ?thesis
      by (subst suiteql_pages.simps)
         (simp add: hm fn pu http_request_def req_def[symmetric] r wf(1))
  qed
  from IH[of "acc @ page_items r1"] show ?case
    unfolding step by auto
qed

text \<open>
  Claim C1. With return-all enabled, let the server answer the successive requests of
  the run with the pages \<open>pages\<close>, where every page but the last makes the driver ask
  for the next one (\<^verbatim>\<open>hasMore\<close> true and a \<^verbatim>\<open>next\<close> link, which is what it takes for the
  later pages to be responses of this run) and the last has \<^verbatim>\<open>hasMore\<close> false. Then the
  run returns, and one result is emitted: the fields of the last page with \<^verbatim>\<open>items\<close>
  replaced by the concatenation of all the pages' items in arrival order, \<^verbatim>\<open>count\<close> by
  its length and \<^verbatim>\<open>hasMore\<close> by false; one request is made per page. The witness is
  the run over pages with 2, 2 and 1 items: 5 items and count 5.
\<close>

theorem C1_return_all_concatenates_pages:
  assumes "returnAll p"
    and "pages \<noteq> []"
    and "\<forall>i<length pages. \<forall>req. \<exists>r. server h (length log + i) req = Inr r \<and> resp_body r = pages ! i"
    and "\<forall>r\<in>set pages. well_formed_page r"
    and "\<forall>r\<in>set (butlast pages). has_next_page h r"
    and "\<not> truthy (get (last pages) ''hasMore'')"
  shows "\<exists>log'. process_item h c ''suiteql'' p log
           = Some (Inr [JObj (AList.update ''hasMore'' (JBool False)
                        (AList.update ''count'' (JNum (int (length (concat (map page_items pages)))))
                          (AList.update ''items'' (JArr (concat (map page_items pages)))
                            (own_props (last pages)))))], log')
         \<and> length log' = length log + length pages"
proof -
  from assms(2) obtain r0 ps where pages: "pages = r0 # ps" by (cases pages) auto
  define req where "req = query_request h c p log"
  from assms(3)[rule_format, of 0 req] obtain r where
    r: "server h (length log) req = Inr r" "resp_body r = r0" by (auto simp: pages)
  have wf: "\<not> nullish r0" "isArray (get r0 ''items'') \<or> \<not> truthy (get r0 ''items'')"
    using assms(4) by (auto simp: well_formed_page_def pages)
  have items0: "(if truthy (get r0 ''items'') then get r0 ''items'' else JArr []) = JArr (page_items r0)"
  proof (cases "truthy (get r0 ''items'')")
    case True
    with wf(2) obtain xs where "get r0 ''items'' = JArr xs" by (cases "get r0 ''items''") auto
    then show ?thesis by (simp add: page_items_def)
  next
    case False
    then show ?thesis by (simp add: page_items_def page_items_falsy)
  qed
  have srv: "\<forall>i<length ps. \<forall>rq. \<exists>r. server h (length (log @ [req]) + i) rq = Inr r \<and> resp_body r = ps ! i"
  proof (intro allI impI)
    fix i rq assume "i < length ps"
    then have "Suc i < length pages" by (simp add: pages)
    from assms(3)[rule_format, OF this, of rq]
    show "\<exists>r. server h (length (log @ [req]) + i) rq = Inr r \<and> resp_body r = ps ! i"
      by (simp add: pages)
  qed
  have loop: "\<exists>log'. suiteql_pages h c (JObj [(''q'', JStr (query p))]) r0 (JArr (page_items r0)) (log @ [req])
       = Some (Inr (last pages, JArr (concat (map page_items pages))), log')
       \<and> length log' = length log + length pages"
    using suiteql_pages_run[OF srv, of r0 c "JObj [(''q'', JStr (query p))]" "page_items r0"]
      assms(4,5,6) by (simp add: pages)
  show ?thesis
  proof (cases "truthy (get r0 ''hasMore'')")
    case True
    from loop obtain log' where
      l: "suiteql_pages h c (JObj [(''q'', JStr (query p))]) r0 (JArr (page_items r0)) (log @ [req])
            = Some (Inr (last pages, JArr (concat (map page_items pages))), log')"
      "length log' = length log + length pages" by blast
    show ?thesis
      using True assms(1) l
      by (simp add: process_item_def suiteql_item_def http_request_def req_def[symmetric] r wf(1)
            items0 suiteql_result_def)
  next
    case False
    have "ps = []"
    proof (rule ccontr)
      assume "ps \<noteq> []"
      then have "r0 \<in> set (butlast pages)" by (simp add: pages)
      with assms(5) have "has_next_page h r0" by blast
      with False show False by (simp add: has_next_page_def)
    qed
    with False show ?thesis
      by (simp add: process_item_def suiteql_item_def http_request_def req_def[symmetric] r wf(1)
            items0 suiteql_result_def pages)
  qed
qed

theorem C1_three_pages_witness:
  "returnAll mock_params
   \<and> \<not> truthy (get (last [mock_page True [JNum 1, JNum 2], mock_page True [JNum 3, JNum 4], mock_page False [JNum 5]]) ''hasMore'')
   \<and> map_option fst
        (process_item
           (mock_host [mock_page True [JNum 1, JNum 2], mock_page True [JNum 3, JNum 4], mock_page False [JNum 5]])
           mock_credentials ''suiteql'' mock_params [])
      = Some (Inr [JObj [(''links'', mock_links), (''count'', JNum 5), (''hasMore'', JBool False),
                         (''items'', JArr [JNum 1, JNum 2, JNum 3, JNum 4, JNum 5]), (''offset'', JNum 0)]])"
proof -
  let ?pages = "[mock_page True [JNum 1, JNum 2], mock_page True [JNum 3, JNum 4], mock_page False [JNum 5]]"
  have h1: "returnAll mock_params" by (simp add: mock_params_def)
  have h2: "?pages \<noteq> []" by simp
  have h3: "\<forall>i<length ?pages. \<forall>req. \<exists>r. server (mock_host ?pages) (length ([]::request list) + i) req = Inr r
              \<and> resp_body r = ?pages ! i"
    by (simp add: mock_host_def scripted_server_def)
  have h4: "\<forall>r\<in>set ?pages. well_formed_page r"
    by (simp add: well_formed_page_def mock_page_def)
  have h5: "\<forall>r\<in>set (butlast ?pages). has_next_page (mock_host ?pages) r"
    by (simp add: has_next_page_def mock_page_def mock_links_def links_find_next_def mock_host_def)
  have h6: "\<not> truthy (get (last ?pages) ''hasMore'')"
    by (simp add: mock_page_def)
  from C1_return_all_concatenates_pages[OF h1 h2 h3 h4 h5 h6, of mock_credentials]
  show ?thesis using h1 h6
    by (auto simp: page_items_def mock_page_def)
qed

subsection \<open>RESTlet result extraction\<close>

lemma scan_fields_object:
  "scan_fields (f # others) (JObj kvs) =
     (case array_at kvs f of Some xs \<Rightarrow> Some xs | None \<Rightarrow> scan_fields others (JObj kvs))"
proof (cases "map_of kvs f")
  case None
  then have "\<not> has_key f (JObj kvs)" by (simp add: has_key_def map_of_eq_None_iff)
  with None show ?thesis by (simp add: array_at_def)
next
  case (Some v)
  then have "has_key f (JObj kvs)" by (auto simp: has_key_def dest: map_of_SomeD intro: rev_image_eqI)
  with Some show ?thesis by (cases v) (simp_all add: array_at_def)
qed

text \<open>The responses on which the loop aborts: those that are not an array and, when an
  object, hold an array under none of the four candidate names.\<close>

lemma extract_results_none_iff:
  "extract_results v = None \<longleftrightarrow>
     (case v of
        JArr xs \<Rightarrow> False
      | JObj kvs \<Rightarrow> array_at kvs ''results'' = None \<and> array_at kvs ''data'' = None
                    \<and> array_at kvs ''items'' = None \<and> array_at kvs ''records'' = None
      | _ \<Rightarrow> True)"
  by (cases v)
     (simp_all add: extract_results_def possibleFields_def scan_fields_object
        del: scan_fields.simps(2) split: option.splits)

text \<open>
  Claim C7, as amended. For a keyed response the extraction scans \<^verbatim>\<open>results\<close>,
  \<^verbatim>\<open>data\<close>, \<^verbatim>\<open>items\<close>, \<^verbatim>\<open>records\<close> in this order and takes the first one that is
  present and holds an array; a candidate that is present with another kind of value is
  passed over.
\<close>

theorem C7_first_candidate_holding_an_array:
  "extract_results (JObj kvs) =
     (case array_at kvs ''results'' of Some xs \<Rightarrow> Some xs | None \<Rightarrow>
      case array_at kvs ''data'' of Some xs \<Rightarrow> Some xs | None \<Rightarrow>
      case array_at kvs ''items'' of Some xs \<Rightarrow> Some xs | None \<Rightarrow>
      array_at kvs ''records'')"
  by (simp add: extract_results_def possibleFields_def scan_fields_object del: scan_fields.simps(2)
        split: option.splits)

text \<open>
  Claim C7 as stated fails: \<^verbatim>\<open>results\<close> is the first candidate present in the response
  below, and the page's results are taken from \<^verbatim>\<open>data\<close>.
\<close>

theorem C7_first_present_counterexample:
  "has_key ''results'' (JObj [(''results'', JStr ''none''), (''data'', JArr [JNum 1])])
   \<and> extract_results (JObj [(''results'', JStr ''none''), (''data'', JArr [JNum 1])]) = Some [JNum 1]
   \<and> get (JObj [(''results'', JStr ''none''), (''data'', JArr [JNum 1])]) ''results'' \<noteq> JArr [JNum 1]"
  by (simp add: extract_results_def possibleFields_def has_key_def)

subsection \<open>RESTlet offset pagination\<close>

text \<open>The loop only appends to the list of requests, every request it appends goes to
  the RESTlet URL, and the first one it appends is the page request of its position.\<close>

lemma restlet_pages_log_aux:
  "restlet_pages h c p parsedBody allResults currentStart log = Some y \<Longrightarrow>
     (\<exists>new. snd y = log @ new \<and> (\<forall>rq \<in> set new. req_url rq = restletUrl c p))"
proof (erule restlet_pages.raw_induct[rotated], goal_cases)
  case (1 rp h c p parsedBody allResults currentStart log y)
  let ?rq = "page_request h c p parsedBody currentStart log"
  have url: "req_url ?rq = restletUrl c p" by (simp add: page_request_def)
  show ?case
  proof (cases "server h (length log) ?rq")
    case (Inl e)
    with 1(2) url show ?thesis by (auto simp: http_request_def)
  next
    case (Inr r)
    show ?thesis
    proof (cases "extract_results (resp_body r)")
      case None
      with 1(2) Inr url show ?thesis by (auto simp: http_request_def)
    next
      case (Some results)
      show ?thesis
      proof (cases "0 < length results \<and> \<not> int (length results) < pageSize p")
        case True
        with 1(2) Inr Some
        have "rp h c p parsedBody (allResults @ results) (js_add currentStart (pageSize p)) (log @ [?rq]) = Some y"
          by (simp add: http_request_def)
        from 1(1)[OF this] obtain new where
          "snd y = (log @ [?rq]) @ new" "\<forall>rq \<in> set new. req_url rq = restletUrl c p" by blast
        with url have "snd y = log @ (?rq # new) \<and> (\<forall>rq \<in> set (?rq # new). req_url rq = restletUrl c p)"
          by simp
        then show ?thesis by blast
      next
        case False
        with 1(2) Inr Some url show ?thesis by (auto simp: http_request_def split: if_splits)
      qed
    qed
  qed
qed


text \<open>What a page request carries: the position under the start field and the position
  plus the page size under the end field.\<close>

lemma page_request_carries_indices:
  assumes "startIndexField p \<noteq> endIndexField p"
  shows "get (req_body (page_request h c p parsedBody currentStart log)) (startIndexField p) = currentStart"
    and "get (req_body (page_request h c p parsedBody currentStart log)) (endIndexField p)
           = js_add currentStart (pageSize p)"
  using assms by (simp_all add: page_request_def paginatedBody_def update_conv')



text \<open>The paginated branch of an item is the loop followed by the emission.\<close>

lemma restlet_item_paginated:
  assumes "operation p = ''call''" and "returnAll p"
    and "parse_body h (restletBody p) = Inr parsedBody" and "\<not> nullish parsedBody"
  shows "process_item h c ''restlet'' p log =
          (case restlet_pages h c p parsedBody [] (initial_start p parsedBody) log of
             None \<Rightarrow> None
           | Some (Inl e, log') \<Rightarrow> Some (Inl e, log')
           | Some (Inr (pushed, allResults), log') \<Rightarrow>
               Some (Inr (restlet_emit p pushed allResults), log'))"
  using assms by (simp add: process_item_def restlet_call_item_def)

text \<open>
  Claim C6, as amended. When a page's response is neither an array nor an object with
  an array under one of the candidate names, the loop stops at once without an error
  and without a further request, and the raw response is pushed as a result of the
  item. It is the item's only result when no results had been accumulated from earlier
  pages; otherwise the aggregate of the accumulated results is pushed after it.
\<close>

theorem C6_unrecognized_page_aborts:
  assumes "server h (length log) (page_request h c p parsedBody currentStart log) = Inr r"
    and "extract_results (resp_body r) = None"
  shows "restlet_pages h c p parsedBody allResults currentStart log
           = Some (Inr ([resp_body r], allResults),
                   log @ [page_request h c p parsedBody currentStart log])
         \<and> restlet_emit p [resp_body r] allResults
           = (if allResults = [] then [resp_body r] else [resp_body r, aggregate p allResults])"
  using assms by (subst restlet_pages.simps) (auto simp: http_request_def restlet_emit_def)

theorem C6_unrecognized_page_witness:
  "restlet_pages (mock_host [JStr ''maintenance'']) mock_credentials mock_params (JObj [(''id'', JStr ''s'')])
      [] (JNum 0) []
     = Some (Inr ([JStr ''maintenance''], []),
             [page_request (mock_host [JStr ''maintenance'']) mock_credentials mock_params
                (JObj [(''id'', JStr ''s'')]) (JNum 0) []])
   \<and> restlet_emit mock_params [JStr ''maintenance''] [] = [JStr ''maintenance'']"
  using C6_unrecognized_page_aborts
    [of "mock_host [JStr ''maintenance'']" "[]" mock_credentials mock_params "JObj [(''id'', JStr ''s'')]"
        "JNum 0" "\<lparr>resp_body = JStr ''maintenance'', resp_headers = []\<rparr>" "[]"]
  by (simp add: mock_host_def scripted_server_def extract_results_def)

text \<open>
  Claim C6 as stated fails: after a full first page, an unrecognized second response is
  pushed and the aggregate of the first page follows it, so the item has two results.
\<close>

theorem C6_sole_result_counterexample:
  "map_option fst (process_item (mock_host [JArr [JNum 1, JNum 2, JNum 3], JStr ''maintenance''])
        mock_credentials ''restlet'' mock_params [])
     = Some (Inr [JStr ''maintenance'', JObj [(''results'', JArr [JNum 1, JNum 2, JNum 3]), (''total'', JNum 3)]])
   \<and> map_option fst (process_item (mock_host [JArr [JNum 1, JNum 2, JNum 3], JStr ''maintenance''])
        mock_credentials ''restlet'' mock_params [])
     \<noteq> Some (Inr [JStr ''maintenance''])"
proof -
  let ?H = "mock_host [JArr [JNum 1, JNum 2, JNum 3], JStr ''maintenance'']"
  let ?B = "JObj [(''id'', JStr ''s'')]"
  let ?rq = "page_request ?H mock_credentials mock_params ?B"
  have sel: "operation mock_params = ''call''" "returnAll mock_params"
    "restletBody mock_params = JObj [(''id'', JStr ''s'')]" "outputFieldName mock_params = ''results''"
    by (simp_all add: mock_params_def)
  have st: "initial_start mock_params ?B = JNum 0"
    by (simp add: initial_start_def mock_params_def)
  have ps: "pageSize mock_params = 3" by (simp add: mock_params_def)
  have sums: "double_of_int 3 = JNum 3"
    by (simp add: double_of_int_safe safe_integer_def)
  have run2: "restlet_pages ?H mock_credentials mock_params ?B [JNum 1, JNum 2, JNum 3] (JNum 3) [?rq (JNum 0) []]
              = Some (Inr ([JStr ''maintenance''], [JNum 1, JNum 2, JNum 3]),
                      [?rq (JNum 0) [], ?rq (JNum 3) [?rq (JNum 0) []]])"
    by (subst restlet_pages.simps)
       (simp add: http_request_def mock_host_def scripted_server_def extract_results_def)
  have run: "restlet_pages ?H mock_credentials mock_params ?B [] (JNum 0) []
              = Some (Inr ([JStr ''maintenance''], [JNum 1, JNum 2, JNum 3]),
                      [?rq (JNum 0) [], ?rq (JNum 3) [?rq (JNum 0) []]])"
    by (subst restlet_pages.simps)
       (simp add: http_request_def mock_host_def scripted_server_def extract_results_def ps
          sums run2[unfolded mock_host_def])
  have "process_item ?H mock_credentials ''restlet'' mock_params []
          = Some (Inr [JStr ''maintenance'', JObj [(''results'', JArr [JNum 1, JNum 2, JNum 3]), (''total'', JNum 3)]],
                  [?rq (JNum 0) [], ?rq (JNum 3) [?rq (JNum 0) []]])"
    by (simp add: process_item_def restlet_call_item_def parse_body_def st run restlet_emit_def
          aggregate_def sel)
  then show ?thesis by simp
qed

text \<open>The accumulator only grows.\<close>

lemma restlet_pages_accumulates_aux:
  "restlet_pages h c p parsedBody allResults currentStart log = Some y \<Longrightarrow>
     (\<forall>pushed final log'. y = (Inr (pushed, final), log') \<longrightarrow> (\<exists>ys. final = allResults @ ys))"
proof (erule restlet_pages.raw_induct[rotated], goal_cases)
  case (1 rp h c p parsedBody allResults currentStart log y)
  show ?case
  proof (intro allI impI)
    fix pushed final log'
    assume y: "y = (Inr (pushed, final), log')"
    obtain resp log1 where hr: "http_request h log (page_request h c p parsedBody currentStart log) = (resp, log1)"
      by (cases "http_request h log (page_request h c p parsedBody currentStart log)") auto
    show "\<exists>ys. final = allResults @ ys"
    proof (cases resp)
      case (Inl e)
      with 1(2) hr y show ?thesis by simp
    next
      case (Inr r)
      show ?thesis
      proof (cases "extract_results (resp_body r)")
        case None
        with 1(2) hr y Inr show ?thesis by simp
      next
        case (Some results)
        show ?thesis
        proof (cases "0 < length results \<and> \<not> int (length results) < pageSize p")
          case True
          with 1(2) hr Inr Some
          have "rp h c p parsedBody (allResults @ results) (js_add currentStart (pageSize p)) log1 = Some y"
            by simp
          from 1(1)[OF this] y obtain ys where "final = (allResults @ results) @ ys" by blast
          then show ?thesis by simp
        next
          case False
          with 1(2) hr y Inr Some show ?thesis by (auto split: if_splits)
        qed
      qed
    qed
  qed
qed

lemma restlet_pages_accumulates:
  assumes "restlet_pages h c p parsedBody allResults currentStart log = Some (Inr (pushed, final), log')"
  shows "\<exists>ys. final = allResults @ ys"
  using restlet_pages_accumulates_aux[OF assms] by blast

text \<open>
  Claim C5, as amended. A paginated RESTlet run that ends with nothing accumulated and
  without an abort (the first page is recognized and empty) emits no result for the
  item: the aggregate is pushed only under \<^verbatim>\<open>allResults.length > 0\<close>. Exactly one request
  was made.
\<close>

theorem C5_nothing_accumulated_emits_nothing:
  assumes "operation p = ''call''" and "returnAll p"
    and "parse_body h (restletBody p) = Inr parsedBody"
    and "\<not> nullish parsedBody"
    and "restlet_pages h c p parsedBody [] (initial_start p parsedBody) log = Some (Inr ([], []), log')"
  shows "process_item h c ''restlet'' p log = Some (Inr [], log')
         \<and> log' = log @ [page_request h c p parsedBody (initial_start p parsedBody) log]"
proof -
  let ?rq = "page_request h c p parsedBody (initial_start p parsedBody) log"
  have emit: "process_item h c ''restlet'' p log = Some (Inr [], log')"
    using assms by (simp add: process_item_def restlet_call_item_def restlet_emit_def)
  have one: "log' = log @ [?rq]"
  proof -
    obtain resp log1 where hr: "http_request h log ?rq = (resp, log1)"
      by (cases "http_request h log ?rq") auto
    then have log1: "log1 = log @ [?rq]" by (simp add: http_request_def)
    from assms(5) have body: "(case http_request h log ?rq of
      (Inl e, log') \<Rightarrow> Some (Inl e, log')
      | (Inr r, log') \<Rightarrow>
          case extract_results (resp_body r) of
          None \<Rightarrow> Some (Inr ([resp_body r], []), log')
          | Some results \<Rightarrow>
              if 0 < length results
              then if int (length results) < pageSize p
                   then Some (Inr ([], [] @ results), log')
                   else restlet_pages h c p parsedBody ([] @ results)
                         (js_add (initial_start p parsedBody) (pageSize p)) log'
              else Some (Inr ([], []), log')) = Some (Inr ([], []), log')"
      by (subst (asm) restlet_pages.simps) simp
    show ?thesis
    proof (cases resp)
      case (Inl e)
      with body hr show ?thesis by simp
    next
      case (Inr r)
      show ?thesis
      proof (cases "extract_results (resp_body r)")
        case None
        with body hr Inr show ?thesis by simp
      next
        case (Some results)
        show ?thesis
        proof (cases "results = []")
          case True
          with body hr Inr Some log1 show ?thesis by simp
        next
          case False
          show ?thesis
          proof (cases "int (length results) < pageSize p")
            case True
            with body hr Inr Some False show ?thesis by simp
          next
            case short: False
            with body hr Inr Some False
            have "restlet_pages h c p parsedBody results
                     (js_add (initial_start p parsedBody) (pageSize p)) log1 = Some (Inr ([], []), log')"
              by simp
            from restlet_pages_accumulates[OF this] False show ?thesis by simp
          qed
        qed
      qed
    qed
  qed
  from emit one show ?thesis by simp
qed

theorem C5_nothing_accumulated_witness:
  "operation mock_params = ''call'' \<and> returnAll mock_params
   \<and> process_item (mock_host [JObj [(''results'', JArr [])]]) mock_credentials ''restlet'' mock_params []
       = Some (Inr [], [page_request (mock_host [JObj [(''results'', JArr [])]]) mock_credentials mock_params
                          (JObj [(''id'', JStr ''s'')]) (JNum 0) []])"
proof -
  let ?H = "mock_host [JObj [(''results'', JArr [])]]"
  let ?B = "JObj [(''id'', JStr ''s'')]"
  have h1: "operation mock_params = ''call''" and h2: "returnAll mock_params"
    by (simp_all add: mock_params_def)
  have h3: "parse_body ?H (restletBody mock_params) = Inr ?B"
    by (simp add: parse_body_def mock_params_def)
  have h4: "\<not> nullish ?B" by simp
  have st: "initial_start mock_params ?B = JNum 0"
    by (simp add: initial_start_def mock_params_def)
  have h5: "restlet_pages ?H mock_credentials mock_params ?B [] (initial_start mock_params ?B) []
              = Some (Inr ([], []), [page_request ?H mock_credentials mock_params ?B (JNum 0) []])"
    unfolding st
    by (subst restlet_pages.simps)
       (simp add: http_request_def mock_host_def scripted_server_def extract_results_def
          possibleFields_def has_key_def)
  from C5_nothing_accumulated_emits_nothing[OF h1 h2 h3 h4 h5] h1 h2 show ?thesis by simp
qed

text \<open>
  Claim C5 as stated fails: when the server answers the first call with
  \<^verbatim>\<open>{results: []}\<close> the item gets no result at all, not \<^verbatim>\<open>{results: [], total: 0}\<close>.
\<close>

theorem C5_empty_first_page_counterexample:
  "map_option fst (process_item (mock_host [JObj [(''results'', JArr [])]]) mock_credentials ''restlet'' mock_params [])
     = Some (Inr [])
   \<and> map_option fst (process_item (mock_host [JObj [(''results'', JArr [])]]) mock_credentials ''restlet'' mock_params [])
     \<noteq> Some (Inr [JObj [(''results'', JArr []), (''total'', JNum 0)]])"
proof -
  let ?H = "mock_host [JObj [(''results'', JArr [])]]"
  let ?B = "JObj [(''id'', JStr ''s'')]"
  have sel: "operation mock_params = ''call''" "returnAll mock_params"
    "restletBody mock_params = JObj [(''id'', JStr ''s'')]" "outputFieldName mock_params = ''results''"
    by (simp_all add: mock_params_def)
  have st: "initial_start mock_params ?B = JNum 0"
    by (simp add: initial_start_def mock_params_def)
  have run: "restlet_pages ?H mock_credentials mock_params ?B [] (JNum 0) []
              = Some (Inr ([], []), [page_request ?H mock_credentials mock_params ?B (JNum 0) []])"
    by (subst restlet_pages.simps)
       (simp add: http_request_def mock_host_def scripted_server_def extract_results_def
          possibleFields_def has_key_def)
  have "process_item ?H mock_credentials ''restlet'' mock_params []
          = Some (Inr [], [page_request ?H mock_credentials mock_params ?B (JNum 0) []])"
    by (simp add: process_item_def restlet_call_item_def parse_body_def st run restlet_emit_def sel)
  then show ?thesis by simp
qed

subsection \<open>The signature\<close>

text \<open>Away from \<^verbatim>\<open>! * ' ( )\<close> the code's encoding is the documented one, and so are the
  base string and the signature.\<close>

lemma keeps_iff_unreserved:
  "c \<notin> sub_delims_kept \<Longrightarrow> uri_component_keeps c = rfc3986_unreserved c"
  by (auto simp: uri_component_keeps_def rfc3986_unreserved_def sub_delims_kept_def)

lemma encodeURIComponent_eq_percentEncode:
  "set s \<inter> sub_delims_kept = {} \<Longrightarrow> encodeURIComponent s = percentEncode s"
  by (induction s) (auto simp: encodeURIComponent_def percentEncode_def keeps_iff_unreserved)

lemma hex_digit_safe: "hex_digit d \<notin> sub_delims_kept"
proof -
  have "set ''0123456789ABCDEF'' \<inter> sub_delims_kept = {}"
    by (simp add: sub_delims_kept_def)
  moreover have "hex_digit d \<in> set ''0123456789ABCDEF''"
    unfolding hex_digit_def by (rule nth_mem) simp
  ultimately show ?thesis by blast
qed

lemma percent_byte_safe: "set (percent_byte c) \<inter> sub_delims_kept = {}"
  using hex_digit_safe by (auto simp: percent_byte_def sub_delims_kept_def)

lemma percentEncode_safe: "set (percentEncode s) \<inter> sub_delims_kept = {}"
proof (induction s)
  case Nil
  then show ?case by (simp add: percentEncode_def)
next
  case (Cons c s)
  have "rfc3986_unreserved c \<Longrightarrow> c \<notin> sub_delims_kept"
    by (auto simp: rfc3986_unreserved_def sub_delims_kept_def is_alnum_def)
  with Cons percent_byte_safe[of c] show ?case
    by (auto simp: percentEncode_def)
qed

lemma join_safe:
  assumes "\<forall>x \<in> set xs. set x \<inter> sub_delims_kept = {}" and "set sep \<inter> sub_delims_kept = {}"
  shows "set (join sep xs) \<inter> sub_delims_kept = {}"
  using assms by (cases xs) (auto simp: join_def)

lemma spec_sortedParams_safe: "set (spec_sortedParams m) \<inter> sub_delims_kept = {}"
  unfolding spec_sortedParams_def
proof (rule join_safe)
  show "\<forall>x\<in>set (map (\<lambda>key. percentEncode key @ ''='' @ percentEncode (param_value m key)) (sort (map fst m))).
          set x \<inter> sub_delims_kept = {}"
    using percentEncode_safe by (auto simp: sub_delims_kept_def)
  show "set ''&'' \<inter> sub_delims_kept = {}" by (simp add: sub_delims_kept_def)
qed

lemma param_value_safe:
  assumes "\<forall>(k, v) \<in> set m. set k \<inter> sub_delims_kept = {} \<and> set v \<inter> sub_delims_kept = {}"
    and "key \<in> set (map fst m)"
  shows "set (param_value m key) \<inter> sub_delims_kept = {}"
proof (cases "map_of m key")
  case None
  with assms(2) show ?thesis by (simp add: map_of_eq_None_iff)
next
  case (Some v)
  then have "(key, v) \<in> set m" by (rule map_of_SomeD)
  with assms(1) Some show ?thesis by (auto simp: param_value_def)
qed

lemma sortedParams_eq_spec:
  assumes "\<forall>(k, v) \<in> set m. set k \<inter> sub_delims_kept = {} \<and> set v \<inter> sub_delims_kept = {}"
  shows "sortedParams m = spec_sortedParams m"
proof -
  have "encodeURIComponent key @ ''='' @ encodeURIComponent (param_value m key)
          = percentEncode key @ ''='' @ percentEncode (param_value m key)"
    if "key \<in> set (sort (map fst m))" for key
  proof -
    from that have k: "key \<in> set (map fst m)" by simp
    then obtain v where "(key, v) \<in> set m" by auto
    with assms have "set key \<inter> sub_delims_kept = {}" by auto
    with param_value_safe[OF assms k] show ?thesis
      by (simp add: encodeURIComponent_eq_percentEncode)
  qed
  then have "map (\<lambda>key. encodeURIComponent key @ ''='' @ encodeURIComponent (param_value m key)) (sort (map fst m))
           = map (\<lambda>key. percentEncode key @ ''='' @ percentEncode (param_value m key)) (sort (map fst m))"
    by (intro map_cong refl)
  then show ?thesis
    unfolding sortedParams_def spec_sortedParams_def by (rule arg_cong)
qed

lemma baseString_eq_spec:
  assumes "\<forall>(k, v) \<in> set m. set k \<inter> sub_delims_kept = {} \<and> set v \<inter> sub_delims_kept = {}"
    and "set baseUrl \<inter> sub_delims_kept = {}"
  shows "baseString method baseUrl m = spec_baseString method baseUrl m"
  using assms spec_sortedParams_safe[of m]
  by (simp add: baseString_def spec_baseString_def sortedParams_eq_spec encodeURIComponent_eq_percentEncode)

lemma signature_eq_spec:
  assumes "\<forall>(k, v) \<in> set (allParams (oauthParams c timestamp nonce) extra).
             set k \<inter> sub_delims_kept = {} \<and> set v \<inter> sub_delims_kept = {}"
    and "set baseUrl \<inter> sub_delims_kept = {}"
    and "set (consumerSecret c) \<inter> sub_delims_kept = {}"
    and "set (tokenSecret c) \<inter> sub_delims_kept = {}"
  shows "signature hmac c method baseUrl extra timestamp nonce
           = spec_signature hmac c method baseUrl extra timestamp nonce"
  using assms
  by (simp add: signature_def spec_signature_def signingKey_def spec_signingKey_def
        baseString_eq_spec encodeURIComponent_eq_percentEncode)

text \<open>
  Claim C3. The signature is the HMAC of the base string under the signing key, built
  as documented except for the encoding: \<^verbatim>\<open>encodeURIComponent\<close> leaves \<^verbatim>\<open>! * ' ( )\<close>
  as they are, where RFC 3986 encoding writes \<^verbatim>\<open>%21 %2A %27 %28 %29\<close>. Every transform
  request meets the difference, since its URL contains \<^verbatim>\<open>/!transform/\<close>: the message the
  code gives to the HMAC has \<^verbatim>\<open>%2F!transform\<close> where the documented base string has
  \<^verbatim>\<open>%2F%21transform\<close>. So does every signing block when a secret has one of the five
  characters: the key the code gives to the HMAC keeps it.
\<close>

theorem C3_signing_inputs_not_rfc3986:
  "record_url mock_credentials (mock_params\<lparr>operation := ''transform'', recordId := ''42''\<rparr>)
     = ''https://a.example/services/rest/record/v1/salesOrder/42/!transform/invoice''
   \<and> baseString ''POST'' ''https://a.example/services/rest/record/v1/salesOrder/42/!transform/invoice''
        (allParams (oauthParams mock_credentials ''1700000000'' ''00'') [])
     = ''POST&https%3A%2F%2Fa.example%2Fservices%2Frest%2Frecord%2Fv1%2FsalesOrder%2F42%2F!transform%2Finvoice&oauth_consumer_key%3Dck%26oauth_nonce%3D00%26oauth_signature_method%3DHMAC-SHA256%26oauth_timestamp%3D1700000000%26oauth_token%3Dtk%26oauth_version%3D1.0''
   \<and> spec_baseString ''POST'' ''https://a.example/services/rest/record/v1/salesOrder/42/!transform/invoice''
        (allParams (oauthParams mock_credentials ''1700000000'' ''00'') [])
     = ''POST&https%3A%2F%2Fa.example%2Fservices%2Frest%2Frecord%2Fv1%2FsalesOrder%2F42%2F%21transform%2Finvoice&oauth_consumer_key%3Dck%26oauth_nonce%3D00%26oauth_signature_method%3DHMAC-SHA256%26oauth_timestamp%3D1700000000%26oauth_token%3Dtk%26oauth_version%3D1.0''
   \<and> signingKey (mock_credentials\<lparr>consumerSecret := ''c!s''\<rparr>) = ''c!s&ts''
   \<and> spec_signingKey (mock_credentials\<lparr>consumerSecret := ''c!s''\<rparr>) = ''c%21s&ts''"
  by code_simp

subsection \<open>Request URLs\<close>

lemma suiteql_pages_log_aux:
  "suiteql_pages h c requestBody response allItems log = Some y \<Longrightarrow> (\<exists>new. snd y = log @ new)"
proof (erule suiteql_pages.raw_induct[rotated], goal_cases)
  case (1 sp h c requestBody response allItems log y)
  have ih: "\<exists>new. snd y = log @ new" if "sp h c requestBody r a (log @ [rq]) = Some y" for r a rq
  proof -
    from 1(1)[OF that] obtain new where "snd y = (log @ [rq]) @ new" by blast
    then have "snd y = log @ (rq # new)" by simp
    then show ?thesis by blast
  qed
  from 1(2) show ?case
    by (auto simp: http_request_def split: if_splits sum.splits option.splits prod.splits intro: ih)
qed

lemma authorization_ignores_restletCompanyUrl:
  "authorization h (c\<lparr>restletCompanyUrl := u\<rparr>) log method baseUrl extra
     = authorization h c log method baseUrl extra"
  by (simp add: authorization_def authHeader_def signature_def signingKey_def oauthParams_def
        split: prod.splits)

lemma suiteql_pages_ignores_aux:
  "suiteql_pages h c requestBody response allItems log = Some y \<Longrightarrow>
     (\<forall>u. suiteql_pages h (c\<lparr>restletCompanyUrl := u\<rparr>) requestBody response allItems log = Some y)"
proof (erule suiteql_pages.raw_induct[rotated], goal_cases)
  case (1 sp h c requestBody response allItems log y)
  show ?case
  proof
    fix u
    from 1(2) show "suiteql_pages h (c\<lparr>restletCompanyUrl := u\<rparr>) requestBody response allItems log = Some y"
      by (subst suiteql_pages.simps)
         (auto simp: authorization_ignores_restletCompanyUrl http_request_def
               split: if_splits sum.splits option.splits prod.splits dest: 1(1))
  qed
qed

lemma suiteql_pages_ignores_restletCompanyUrl:
  "suiteql_pages h (c\<lparr>restletCompanyUrl := u\<rparr>) requestBody response allItems log
     = suiteql_pages h c requestBody response allItems log"
proof (cases "suiteql_pages h c requestBody response allItems log")
  case (Some y)
  with suiteql_pages_ignores_aux[OF Some] show ?thesis by simp
next
  case None
  show ?thesis
  proof (cases "suiteql_pages h (c\<lparr>restletCompanyUrl := u\<rparr>) requestBody response allItems log")
    case inner: None
    with None show ?thesis by simp
  next
    case (Some y)
    from suiteql_pages_ignores_aux[OF Some, rule_format, of "restletCompanyUrl c"]
    have "suiteql_pages h c requestBody response allItems log = Some y" by simp
    with None show ?thesis by simp
  qed
qed

lemma query_request_ignores_restletCompanyUrl:
  "query_request h (c\<lparr>restletCompanyUrl := u\<rparr>) p log = query_request h c p log"
  by (simp add: query_request_def authorization_ignores_restletCompanyUrl Let_def)

lemma suiteql_item_ignores_restletCompanyUrl:
  "suiteql_item h (c\<lparr>restletCompanyUrl := u\<rparr>) p log = suiteql_item h c p log"
  by (simp add: suiteql_item_def query_request_ignores_restletCompanyUrl
        suiteql_pages_ignores_restletCompanyUrl Let_def split: prod.splits sum.splits)

lemma record_item_ignores_restletCompanyUrl:
  "record_item h (c\<lparr>restletCompanyUrl := u\<rparr>) p log = record_item h c p log"
  by (simp add: record_item_def record_url_def authorization_ignores_restletCompanyUrl)


text \<open>Every request the loop sends goes to the \<^verbatim>\<open>href\<close> of the \<^verbatim>\<open>next\<close> link of the response
  before it.\<close>

lemma suiteql_pages_follow_ups_aux:
  "suiteql_pages h c requestBody response allItems log = Some y \<Longrightarrow>
     (\<exists>new. snd y = log @ new \<and> follow_ups h (length log) response new)"
proof (erule suiteql_pages.raw_induct[rotated], goal_cases)
  case (1 sp h c requestBody response allItems log y)
  have none: "\<exists>new. snd y = log @ new \<and> follow_ups h (length log) response new" if "snd y = log"
    using that by (intro exI[of _ "[]"]) simp
  show ?case
  proof (cases "truthy (get response ''hasMore'') \<and> truthy (get response ''links'')")
    case False
    with 1(2) have "snd y = log" by auto
    then show ?thesis by (rule none)
  next
    case True
    show ?thesis
    proof (cases "links_find_next (get response ''links'')")
      case (Inl e)
      with True 1(2) have "snd y = log" by auto
      then show ?thesis by (rule none)
    next
      case (Inr found)
      show ?thesis
      proof (cases found)
        case None
        with True Inr 1(2) have "snd y = log" by auto
        then show ?thesis by (rule none)
      next
        case (Some nextLink)
        note fn = Inr[unfolded Some]
        show ?thesis
        proof (cases "parse_url h (js_toString (get nextLink ''href''))")
          case None
          with True fn 1(2) have "snd y = log" by auto
          then show ?thesis by (rule none)
        next
          case (Some parsed)
          obtain baseUrl searchParams where parsed: "parsed = (baseUrl, searchParams)"
            by (cases parsed) auto
          define rq where "rq = \<lparr>req_url = js_toString (get nextLink ''href''), req_method = ''POST'',
              req_headers = suiteql_headers (authorization h c log ''POST'' baseUrl
                                               (signable_query searchParams)),
              req_body = requestBody, req_qs = []\<rparr>"
          have url: "req_url rq = js_toString (get nextLink ''href'')" by (simp add: rq_def)
          have single: "\<exists>new. snd y = log @ new \<and> follow_ups h (length log) response new"
            if "snd y = log @ [rq]"
            using that fn url by (intro exI[of _ "[rq]"]) simp
          have body: "(case server h (length log) rq of
                         Inl e \<Rightarrow> Some (Inl e, log @ [rq])
                       | Inr r \<Rightarrow>
                           (if nullish (resp_body r)
                            then Some (Inl (TypeError ''Cannot read properties of null (reading items)''), log @ [rq])
                            else if truthy (get (resp_body r) ''items'')
                            then (case js_concat allItems (get (resp_body r) ''items'') of
                                    Inl e \<Rightarrow> Some (Inl e, log @ [rq])
                                  | Inr allItems' \<Rightarrow> sp h c requestBody (resp_body r) allItems' (log @ [rq]))
                            else sp h c requestBody (resp_body r) allItems (log @ [rq]))) = Some y"
            using True fn Some parsed 1(2) unfolding rq_def by (simp add: http_request_def)
          show ?thesis
          proof (cases "server h (length log) rq")
            case (Inl e)
            with body have "snd y = log @ [rq]" by auto
            then show ?thesis by (rule single)
          next
            case r: (Inr r)
            have later: "\<exists>new. snd y = log @ new \<and> follow_ups h (length log) response new"
              if "sp h c requestBody (resp_body r) a (log @ [rq]) = Some y" for a
            proof -
              from 1(1)[OF that] obtain new where
                new: "snd y = (log @ [rq]) @ new" "follow_ups h (length (log @ [rq])) (resp_body r) new"
                by blast
              then have "snd y = log @ rq # new \<and> follow_ups h (length log) response (rq # new)"
                using fn url r by simp
              then show ?thesis by blast
            qed
            show ?thesis
            proof (cases "nullish (resp_body r)")
              case True
              with body r have "snd y = log @ [rq]" by auto
              then show ?thesis by (rule single)
            next
              case nn: False
              show ?thesis
              proof (cases "truthy (get (resp_body r) ''items'')")
                case False
                with body r nn have "sp h c requestBody (resp_body r) allItems (log @ [rq]) = Some y"
                  by simp
                then show ?thesis by (rule later)
              next
                case items: True
                show ?thesis
                proof (cases "js_concat allItems (get (resp_body r) ''items'')")
                  case (Inl e)
                  with body r nn items have "snd y = log @ [rq]" by auto
                  then show ?thesis by (rule single)
                next
                  case (Inr allItems')
                  with body r nn items
                  have "sp h c requestBody (resp_body r) allItems' (log @ [rq]) = Some y" by simp
                  then show ?thesis by (rule later)
                qed
              qed
            qed
          qed
        qed
      qed
    qed
  qed
qed

text \<open>A SuiteQL item sends the query request and then only such follow-up requests.\<close>

lemma suiteql_item_log:
  assumes "suiteql_item h c p log = Some (res, log')"
  shows "\<exists>rest. log' = log @ query_request h c p log # rest \<and>
           (rest = [] \<or>
            (\<exists>r. server h (length log) (query_request h c p log) = Inr r
                 \<and> follow_ups h (Suc (length log)) (resp_body r) rest))"
proof -
  let ?q = "query_request h c p log"
  have single: ?thesis if "log' = log @ [?q]"
    using that by (intro exI[of _ "[]"]) simp
  show ?thesis
  proof (cases "server h (length log) ?q")
    case (Inl e)
    with assms have "log' = log @ [?q]" by (auto simp: suiteql_item_def http_request_def)
    then show ?thesis by (rule single)
  next
    case r: (Inr r)
    show ?thesis
    proof (cases "\<not> nullish (resp_body r) \<and> returnAll p \<and> truthy (get (resp_body r) ''hasMore'')")
      case False
      with assms r have "log' = log @ [?q]"
        by (auto simp: suiteql_item_def http_request_def Let_def split: if_splits)
      then show ?thesis by (rule single)
    next
      case True
      with assms r obtain y where
        y: "suiteql_pages h c (JObj [(''q'', JStr (query p))]) (resp_body r)
              (if truthy (get (resp_body r) ''items'') then get (resp_body r) ''items'' else JArr [])
              (log @ [?q]) = Some y" "snd y = log'"
        by (auto simp: suiteql_item_def http_request_def Let_def
                 split: option.splits sum.splits prod.splits)
      from suiteql_pages_follow_ups_aux[OF y(1)] y(2) obtain new where
        "log' = (log @ [?q]) @ new" "follow_ups h (length (log @ [?q])) (resp_body r) new" by auto
      with r show ?thesis by (intro exI[of _ new]) simp
    qed
  qed
qed

lemma query_request_url:
  "req_url (query_request h c p log)
     = ''https://'' @ companyUrl c @ ''/services/rest/query/v1/suiteql''
       @ (if returnAll p then [] else ''?limit='' @ show_int (limit p))"
  by (simp add: query_request_def Let_def)

lemma record_item_log:
  assumes "record_item h c p log = (res, log')"
  shows "\<exists>new. log' = log @ new \<and> (\<forall>rq \<in> set new. req_url rq = record_url c p)"
proof (cases "recordId p = [] \<and> operation p \<in> set id_operations")
  case True
  with assms have "log' = log @ []" by (simp add: record_item_def)
  then show ?thesis by (intro exI[of _ "[]"]) simp
next
  case False
  let ?rq = "\<lparr>req_url = record_url c p, req_method = record_method p,
        req_headers = suiteql_headers (authorization h c log (record_method p) (record_url c p) []),
        req_body = (if operation p = ''get'' then JUndefined else body p), req_qs = []\<rparr>"
  from False assms have "log' = log @ [?rq]"
    by (auto simp: record_item_def http_request_def split: sum.splits)
  then show ?thesis by (intro exI[of _ "[?rq]"]) simp
qed

lemma upload_item_log:
  assumes "upload_item h c p log = (res, log')"
  shows "\<exists>new. log' = log @ new
           \<and> (\<forall>rq \<in> set new. req_url rq = ''https://'' @ restletBaseUrl c @ ''/app/site/hosting/restlet.nl'')"
proof (cases "\<exists>b t. binaryData p = Some b \<and> fileTypeOf (fileName p) = Inr t")
  case False
  with assms have "log' = log @ []"
    by (auto simp: upload_item_def split: option.splits sum.splits)
  then show ?thesis by (intro exI[of _ "[]"]) simp
next
  case True
  then obtain b t where bt: "binaryData p = Some b" "fileTypeOf (fileName p) = Inr t" by blast
  with assms obtain rq where "log' = log @ [rq]"
    "req_url rq = ''https://'' @ restletBaseUrl c @ ''/app/site/hosting/restlet.nl''"
    by (auto simp: upload_item_def http_request_def Let_def split: sum.splits)
  then show ?thesis by (intro exI[of _ "[rq]"]) simp
qed

lemma restlet_call_item_log:
  assumes "restlet_call_item h c p log = Some (res, log')"
  shows "\<exists>new. log' = log @ new \<and> (\<forall>rq \<in> set new. req_url rq = restletUrl c p)"
proof (cases "parse_body h (restletBody p)")
  case (Inl e)
  with assms have "log' = log @ []" by (simp add: restlet_call_item_def)
  then show ?thesis by (intro exI[of _ "[]"]) simp
next
  case (Inr parsedBody)
  show ?thesis
  proof (cases "returnAll p")
    case False
    let ?rq = "\<lparr>req_url = restletUrl c p, req_method = ''POST'',
                 req_headers = restlet_headers (restlet_auth h c p log),
                 req_body = parsedBody, req_qs = []\<rparr>"
    from False Inr assms have "log' = log @ [?rq]"
      by (auto simp: restlet_call_item_def http_request_def split: sum.splits)
    then show ?thesis by (intro exI[of _ "[?rq]"]) simp
  next
    case True
    show ?thesis
    proof (cases "nullish parsedBody")
      case nl: True
      with True Inr assms have "log' = log @ []" by (simp add: restlet_call_item_def)
      then show ?thesis by (intro exI[of _ "[]"]) simp
    next
      case False
      with True Inr assms obtain y where
        y: "restlet_pages h c p parsedBody [] (initial_start p parsedBody) log = Some y" "snd y = log'"
        by (auto simp: restlet_call_item_def split: option.splits sum.splits prod.splits)
      from restlet_pages_log_aux[OF y(1)] y(2) show ?thesis by simp
    qed
  qed
qed

text \<open>
  Claim C10, as amended. Every request of a RESTlet call (single or paginated) and of a
  file upload goes to \<^verbatim>\<open>https://<host>/app/site/hosting/restlet.nl\<close> where the host is
  \<^verbatim>\<open>restletCompanyUrl\<close> when that field is present and not empty and \<^verbatim>\<open>companyUrl\<close>
  otherwise. The requests that the other resources build, the Record request and the
  SuiteQL query request, are on \<^verbatim>\<open>companyUrl\<close>, and for those resources the whole run
  (results and requests) is the same whatever \<^verbatim>\<open>restletCompanyUrl\<close> is. Every request of
  a SuiteQL run after the query request is a follow-up page request (\<open>follow_ups\<close>): it
  is sent to the \<^verbatim>\<open>href\<close> of the \<^verbatim>\<open>next\<close> link of the response before it, as it is.
  The witness is a RESTlet call with \<^verbatim>\<open>restletCompanyUrl\<close> set, and a SuiteQL run of two
  pages: the query request on \<^verbatim>\<open>companyUrl\<close>, then one follow-up request.
\<close>

theorem C10_request_url_hosts:
  assumes "process_item h c resource p log = Some (res, log')"
  shows "\<exists>new. log' = log @ new \<and>
     (resource = ''restlet'' \<longrightarrow>
        (\<forall>rq\<in>set new. req_url rq =
           ''https://''
           @ (case restletCompanyUrl c of None \<Rightarrow> companyUrl c
              | Some u \<Rightarrow> if u = [] then companyUrl c else u)
           @ ''/app/site/hosting/restlet.nl''
           @ (if operation p = ''call'' then ''?script='' @ scriptId p @ ''&deploy='' @ deployId p else []))) \<and>
     (resource = ''record'' \<longrightarrow>
        (\<forall>rq\<in>set new. req_url rq =
           ''https://'' @ companyUrl c @ ''/services/rest/record/v1/'' @ recordType p
           @ (if operation p \<in> set id_operations \<and> recordId p \<noteq> [] then ''/'' @ recordId p else [])
           @ (if operation p = ''transform'' then ''/!transform/'' @ targetRecordType p else []))) \<and>
     (resource = ''suiteql'' \<longrightarrow>
        new \<noteq> [] \<and>
        req_url (hd new) =
           ''https://'' @ companyUrl c @ ''/services/rest/query/v1/suiteql''
           @ (if returnAll p then [] else ''?limit='' @ show_int (limit p)) \<and>
        (tl new = [] \<or>
         (\<exists>r. server h (length log) (hd new) = Inr r
              \<and> follow_ups h (Suc (length log)) (resp_body r) (tl new)))) \<and>
     (resource \<noteq> ''restlet'' \<longrightarrow>
        (\<forall>u. process_item h (c\<lparr>restletCompanyUrl := u\<rparr>) resource p log = Some (res, log')))"
proof -
  have base: "restletBaseUrl c = (case restletCompanyUrl c of None \<Rightarrow> companyUrl c
              | Some u \<Rightarrow> if u = [] then companyUrl c else u)"
    by (simp add: restletBaseUrl_def split: option.splits)
  consider (is_suiteql) "resource = ''suiteql''" | (is_record) "resource = ''record''"
    | (is_restlet) "resource = ''restlet''"
    | (other) "resource \<noteq> ''suiteql'' \<and> resource \<noteq> ''record'' \<and> resource \<noteq> ''restlet''"
    by blast
  then show ?thesis
  proof cases
    case is_suiteql
    with assms have run: "suiteql_item h c p log = Some (res, log')" by (simp add: process_item_def)
    from suiteql_item_log[OF run] obtain rest where
      "log' = log @ query_request h c p log # rest"
      "rest = [] \<or> (\<exists>r. server h (length log) (query_request h c p log) = Inr r
                 \<and> follow_ups h (Suc (length log)) (resp_body r) rest)" by blast
    moreover have "\<forall>u. process_item h (c\<lparr>restletCompanyUrl := u\<rparr>) resource p log = Some (res, log')"
      using run is_suiteql by (simp add: process_item_def suiteql_item_ignores_restletCompanyUrl)
    ultimately show ?thesis
      using is_suiteql by (intro exI[of _ "query_request h c p log # rest"]) (simp add: query_request_url)
  next
    case is_record
    with assms have run: "record_item h c p log = (res, log')" by (simp add: process_item_def)
    from record_item_log[OF run] obtain new where
      new: "log' = log @ new" "\<forall>rq \<in> set new. req_url rq = record_url c p" by blast
    moreover have "\<forall>u. process_item h (c\<lparr>restletCompanyUrl := u\<rparr>) resource p log = Some (res, log')"
      using run is_record by (simp add: process_item_def record_item_ignores_restletCompanyUrl)
    ultimately show ?thesis
      using is_record by (intro exI[of _ new]) (simp add: record_url_def)
  next
    case is_restlet
    show ?thesis
    proof (cases "operation p = ''call''")
      case True
      with assms is_restlet have "restlet_call_item h c p log = Some (res, log')"
        by (simp add: process_item_def)
      from restlet_call_item_log[OF this] obtain new where
        "log' = log @ new" "\<forall>rq \<in> set new. req_url rq = restletUrl c p" by blast
      then show ?thesis
        using is_restlet True by (intro exI[of _ new]) (simp add: restletUrl_def base)
    next
      case False
      show ?thesis
      proof (cases "operation p = ''uploadFile''")
        case up: True
        with assms is_restlet have "upload_item h c p log = (res, log')"
          by (simp add: process_item_def)
        from upload_item_log[OF this] obtain new where
          "log' = log @ new"
          "\<forall>rq \<in> set new. req_url rq = ''https://'' @ restletBaseUrl c @ ''/app/site/hosting/restlet.nl''"
          by blast
        then show ?thesis
          using is_restlet False by (intro exI[of _ new]) (simp add: base)
      next
        case nup: False
        with assms is_restlet False have "log' = log @ []" by (simp add: process_item_def)
        then show ?thesis using is_restlet by (intro exI[of _ "[]"]) simp
      qed
    qed
  next
    case other
    with assms have "log' = log @ []" "\<forall>u. process_item h (c\<lparr>restletCompanyUrl := u\<rparr>) resource p log = Some (res, log')"
      by (simp_all add: process_item_def)
    then show ?thesis using other by (intro exI[of _ "[]"]) simp
  qed
qed


theorem C10_restlet_host_witness:
  "map_option (\<lambda>(res, log). (res, map req_url log))
     (process_item (mock_host [JStr ''ok'']) (mock_credentials\<lparr>restletCompanyUrl := Some ''r.example''\<rparr>)
        ''restlet'' (mock_params\<lparr>returnAll := False\<rparr>) [])
   = Some (Inr [JStr ''ok''], [''https://r.example/app/site/hosting/restlet.nl?script=7&deploy=1''])
   \<and> (\<exists>res first second r.
         process_item
           (mock_host [JObj [(''links'', JArr [JObj [(''rel'', JStr ''next''), (''href'', JStr ''https://b.example/q?offset=2'')]]),
                             (''hasMore'', JBool True), (''items'', JArr [JNum 1, JNum 2])],
                       mock_page False [JNum 3]])
           mock_credentials ''suiteql'' mock_params [] = Some (res, [first, second])
         \<and> req_url first = ''https://a.example/services/rest/query/v1/suiteql''
         \<and> server (mock_host [JObj [(''links'', JArr [JObj [(''rel'', JStr ''next''), (''href'', JStr ''https://b.example/q?offset=2'')]]),
                             (''hasMore'', JBool True), (''items'', JArr [JNum 1, JNum 2])],
                       mock_page False [JNum 3]]) 0 first = Inr r
         \<and> follow_ups (mock_host [JObj [(''links'', JArr [JObj [(''rel'', JStr ''next''), (''href'', JStr ''https://b.example/q?offset=2'')]]),
                             (''hasMore'', JBool True), (''items'', JArr [JNum 1, JNum 2])],
                       mock_page False [JNum 3]]) 1 (resp_body r) [second]
         \<and> req_url second = ''https://b.example/q?offset=2'')"
proof -
  let ?H = "mock_host [JStr ''ok'']"
  let ?C = "mock_credentials\<lparr>restletCompanyUrl := Some ''r.example''\<rparr>"
  let ?P = "mock_params\<lparr>returnAll := False\<rparr>"
  let ?rq = "\<lparr>req_url = restletUrl ?C ?P, req_method = ''POST'',
              req_headers = restlet_headers (restlet_auth ?H ?C ?P []),
              req_body = JObj [(''id'', JStr ''s'')], req_qs = []\<rparr>"
  have sel: "operation ?P = ''call''" "\<not> returnAll ?P" "restletBody ?P = JObj [(''id'', JStr ''s'')]"
    "scriptId ?P = ''7''" "deployId ?P = ''1''"
    by (simp_all add: mock_params_def)
  have run: "process_item ?H ?C ''restlet'' ?P [] = Some (Inr [JStr ''ok''], [?rq])"
    by (simp add: process_item_def restlet_call_item_def parse_body_def sel http_request_def
          mock_host_def scripted_server_def)
  from C10_request_url_hosts[OF run]
  have "req_url ?rq = ''https://r.example/app/site/hosting/restlet.nl?script=7&deploy=1''"
    by (auto simp: sel mock_credentials_def)
  with run have restlet: "map_option (\<lambda>(res, log). (res, map req_url log))
     (process_item ?H ?C ''restlet'' ?P [])
   = Some (Inr [JStr ''ok''], [''https://r.example/app/site/hosting/restlet.nl?script=7&deploy=1''])"
    by simp
  let ?H2 = "mock_host [JObj [(''links'', JArr [JObj [(''rel'', JStr ''next''), (''href'', JStr ''https://b.example/q?offset=2'')]]),
                             (''hasMore'', JBool True), (''items'', JArr [JNum 1, JNum 2])],
                       mock_page False [JNum 3]]"
  have urls: "map_option (\<lambda>(res, log). map req_url log)
        (process_item ?H2 mock_credentials ''suiteql'' mock_params [])
     = Some [''https://a.example/services/rest/query/v1/suiteql'', ''https://b.example/q?offset=2'']"
    by code_simp
  then obtain res log' where run2: "process_item ?H2 mock_credentials ''suiteql'' mock_params [] = Some (res, log')"
    and u: "map req_url log' = [''https://a.example/services/rest/query/v1/suiteql'', ''https://b.example/q?offset=2'']"
    by (cases "process_item ?H2 mock_credentials ''suiteql'' mock_params []") auto
  from u obtain first second where l: "log' = [first, second]"
    and u1: "req_url first = ''https://a.example/services/rest/query/v1/suiteql''"
    and u2: "req_url second = ''https://b.example/q?offset=2''"
    by (cases log'; cases "tl log'"; cases "tl (tl log')") auto
  from C10_request_url_hosts[OF run2] l
  obtain r where "server ?H2 0 first = Inr r" "follow_ups ?H2 1 (resp_body r) [second]"
    by auto
  with run2 l u1 u2 restlet show ?thesis by blast
qed

text \<open>
  Claim C10 as stated fails for SuiteQL: when the first page's \<^verbatim>\<open>next\<close> link names
  another host, the second request of the run goes to that host, not to
  \<^verbatim>\<open>companyUrl\<close>.
\<close>

theorem C10_follow_up_host_counterexample:
  "companyUrl mock_credentials = ''a.example''
   \<and> map_option (\<lambda>(res, log). map req_url log)
        (process_item
           (mock_host [JObj [(''links'', JArr [JObj [(''rel'', JStr ''next''), (''href'', JStr ''https://b.example/q?offset=2'')]]),
                             (''hasMore'', JBool True), (''items'', JArr [JNum 1, JNum 2])],
                       mock_page False [JNum 3]])
           mock_credentials ''suiteql'' mock_params [])
     = Some [''https://a.example/services/rest/query/v1/suiteql'', ''https://b.example/q?offset=2'']"
  by code_simp

end
